theory Spec2Isabelle
  imports Complex_Main "HOL-Library.Word" "HOL-Library.Log_Nat"
begin

section \<open>Shared vocabulary\<close>

text \<open>
  The three components (plan selection page, payment dialog, document verification page)
  are React function components. Their \<open>useState\<close> cells become record fields, their
  event handlers become functions from state to state, and everything a handler does to
  the outside (notifications, navigation, storage and records-store calls, callbacks of
  the hosting flow, timers) is appended, in program order, to a trace of effects.

  Identifiers, storage keys and routes are ASCII and are modelled as \<open>string\<close>. The free
  text typed into the card form is a JavaScript string, whose \<open>length\<close> counts UTF-16 code
  units; it is modelled as a list of 16-bit words.
\<close>

type_synonym jsstring = "16 word list"

text \<open>A \<open>File\<close> object picked in a file input; as an object it is always truthy.\<close>

datatype blob = File string

text \<open>
  The notifications of the three components, one constructor per toast title of the source:
  "Plano selecionado" (with its interpolated description), "Informacoes incompletas",
  "Pagamento aprovado!", "Voce precisa estar logado", "Documentos incompletos",
  "Documentos enviados", "Erro ao enviar documentos".
\<close>

datatype notice =
    PlanoSelecionado string
  | InformacoesIncompletas
  | PagamentoAprovado
  | PrecisaEstarLogado
  | DocumentosIncompletos
  | DocumentosEnviados
  | ErroAoEnviarDocumentos

record verification_row =
  user_id :: string
  document_front_url :: string
  document_back_url :: string
  document_selfie_url :: string
  status :: string

datatype effect =
    Toast notice
  | Navigate string
  | ConsoleError
  | SetTimeout nat
  | OnPaymentComplete
  | OnClose
  | StorageUpload string string blob
  | GetPublicUrl string string
  | RecordInsert string verification_row

text \<open>JavaScript truthiness of a value of type \<open>string | null\<close>: null and the empty
  string are falsy.\<close>

definition truthy :: "string option \<Rightarrow> bool" where
  "truthy v = (case v of None \<Rightarrow> False | Some s \<Rightarrow> s \<noteq> [])"

section \<open>Plan selection page (src/pages/PlanSelection.tsx)\<close>

subsection \<open>Data\<close>

text \<open>
  A row of \<open>subscription_plans\<close>. The generated row type is not part of the sources at
  hand; the fields the page reads are \<open>id\<close>, \<open>name\<close> and \<open>price\<close>, and the price is an
  integer (data model of the specification).
\<close>

record plan =
  plan_id :: string
  plan_name :: string
  plan_price :: int

record duration_option =
  label :: string
  multiplier :: rat

text \<open>
  The table \<open>durationOptions\<close>, in the key order of the object literal. The multipliers
  0.5, 1.0, 2.5, 3.5 and 8.0 are dyadic, hence exact as JavaScript numbers; the table
  holds the values they denote. The label of "1mes" carries an e with circumflex, written here as
  its two UTF-8 bytes.
\<close>

definition durationOptions :: "(string \<times> duration_option) list" where
  "durationOptions =
     [(''1dia'', \<lparr>label = ''1 dia'', multiplier = 1 / 2\<rparr>),
      (''3dias'', \<lparr>label = ''3 dias'', multiplier = 1\<rparr>),
      (''15dias'', \<lparr>label = ''15 dias'', multiplier = 5 / 2\<rparr>),
      (''1mes'', \<lparr>label = ''1 m'' @ [CHR 0xC3, CHR 0xAA] @ ''s'', multiplier = 7 / 2\<rparr>),
      (''3meses'', \<lparr>label = ''3 meses'', multiplier = 8\<rparr>)]"

record page =
  selectedPlan :: "string option"
  selectedDuration :: string
  plans :: "plan list"

text \<open>The \<open>useState\<close> initial values; the catalog hook starts with the empty list.\<close>

definition initial_page :: page where
  "initial_page = \<lparr>selectedPlan = None, selectedDuration = ''3dias'', plans = []\<rparr>"

subsection \<open>JavaScript numbers\<close>

text \<open>
  A JavaScript number is an IEEE 754 double: a finite value, an infinity or NaN. A finite
  value is kept as the rational it denotes; the two zeros are one value here, since the
  page only compares with \<open>===\<close>, multiplies, rounds and prints, none of which tells
  them apart.
\<close>

datatype number = Fin rat | PosInf | NegInf | NaN

text \<open>The exponent of the binade of a non-zero rational: \<open>2 powi binade x \<le> \<bar>x\<bar> < 2 powi (binade x + 1)\<close>.\<close>

definition binade :: "rat \<Rightarrow> int" where
  "binade x =
     (if 1 \<le> \<bar>x\<bar> then bitlen \<lfloor>\<bar>x\<bar>\<rfloor> - 1 else - bitlen (\<lceil>1 / \<bar>x\<bar>\<rceil> - 1))"

definition round_half_even :: "rat \<Rightarrow> int" where
  "round_half_even x =
     (if x - of_int \<lfloor>x\<rfloor> < 1 / 2 then \<lfloor>x\<rfloor>
      else if 1 / 2 < x - of_int \<lfloor>x\<rfloor> then \<lfloor>x\<rfloor> + 1
      else if even \<lfloor>x\<rfloor> then \<lfloor>x\<rfloor> else \<lfloor>x\<rfloor> + 1)"

text \<open>
  The double that an exact value rounds to (round to nearest, ties to even): the value is
  rounded to a multiple of the spacing of its binade, 52 binary places below the leading
  one and never finer than \<open>2 powi - 1074\<close> (the subnormal range); a result of magnitude
  \<open>2 powi 1024\<close> or more overflows to an infinity.
\<close>

definition to_double :: "rat \<Rightarrow> number" where
  "to_double x =
     (if x = 0 then Fin 0
      else
        let q = 2 powi (max (binade x) (- 1022) - 52);
            y = of_int (round_half_even (x / q)) * q
        in if 2 powi 1024 \<le> \<bar>y\<bar> then (if 0 < x then PosInf else NegInf) else Fin y)"

text \<open>The operator \<open>*\<close> on numbers.\<close>

fun js_mul :: "number \<Rightarrow> number \<Rightarrow> number" where
  "js_mul (Fin a) (Fin b) = to_double (a * b)"
| "js_mul NaN _ = NaN"
| "js_mul _ NaN = NaN"
| "js_mul (Fin a) PosInf = (if a = 0 then NaN else if 0 < a then PosInf else NegInf)"
| "js_mul (Fin a) NegInf = (if a = 0 then NaN else if 0 < a then NegInf else PosInf)"
| "js_mul PosInf (Fin b) = (if b = 0 then NaN else if 0 < b then PosInf else NegInf)"
| "js_mul NegInf (Fin b) = (if b = 0 then NaN else if 0 < b then NegInf else PosInf)"
| "js_mul PosInf PosInf = PosInf"
| "js_mul PosInf NegInf = NegInf"
| "js_mul NegInf PosInf = NegInf"
| "js_mul NegInf NegInf = PosInf"

text \<open>
  \<open>Math.round\<close> returns the integer closest to its argument, the larger one on a tie
  (the floor of the argument plus one half, taken exactly), and returns an infinity or
  NaN as it is.
\<close>

fun math_round :: "number \<Rightarrow> number" where
  "math_round (Fin x) = Fin (of_int \<lfloor>x + 1 / 2\<rfloor>)"
| "math_round v = v"

text \<open>
  The values that are doubles, in the words of the standard: an integer significand of
  fewer than 54 bits times a power of two with exponent between -1074 and 971.
\<close>

definition representable :: "rat \<Rightarrow> bool" where
  "representable y =
     (\<exists>n k. \<bar>n\<bar> < 2 ^ 53 \<and> - 1074 \<le> k \<and> k \<le> 971 \<and> y = of_int n * 2 powi k)"

subsection \<open>Pricing\<close>

definition calculatePrice :: "number \<Rightarrow> number \<Rightarrow> number" where
  "calculatePrice basePrice durationMultiplier =
     (if basePrice = Fin 0 then Fin 0 else math_round (js_mul basePrice durationMultiplier))"

text \<open>
  The rounding of the specification, in its own words ("standard round-half-up"): a
  fractional part below one half rounds down, one half or more rounds up.
\<close>

definition round_half_up :: "rat \<Rightarrow> int" where
  "round_half_up x = (if x - of_int \<lfloor>x\<rfloor> < 1 / 2 then \<lfloor>x\<rfloor> else \<lfloor>x\<rfloor> + 1)"

definition getAvailableDurations :: "plan \<Rightarrow> (string \<times> duration_option) list" where
  "getAvailableDurations p =
     (if plan_price p = 0
      then (case map_of durationOptions ''1dia'' of
              Some d \<Rightarrow> [(''1dia'', d)]
            | None \<Rightarrow> [])
      else durationOptions)"


subsection \<open>Effects of a render\<close>

text \<open>
  Both \<open>useEffect\<close> bodies read the values of the render they belong to (the closure \<open>c\<close>)
  and enqueue state updates, which are applied to the pending state \<open>s\<close>.
\<close>

definition initial_plan_effect :: "page \<Rightarrow> page \<Rightarrow> page" where
  "initial_plan_effect c s =
     (case plans c of
        [] \<Rightarrow> s
      | p # _ \<Rightarrow> if \<not> truthy (selectedPlan c) then s\<lparr>selectedPlan := Some (plan_id p)\<rparr> else s)"

definition free_plan_effect :: "page \<Rightarrow> page \<Rightarrow> page" where
  "free_plan_effect c s =
     (case selectedPlan c of
        None \<Rightarrow> s
      | Some sp \<Rightarrow>
          if sp = [] then s
          else (case find (\<lambda>p. plan_id p = sp) (plans c) of
                  None \<Rightarrow> s
                | Some p \<Rightarrow>
                    if plan_price p = 0 \<and> selectedDuration c \<noteq> ''1dia''
                    then s\<lparr>selectedDuration := ''1dia''\<rparr>
                    else s))"

definition effects_pass :: "page \<Rightarrow> page" where
  "effects_pass c = free_plan_effect c (initial_plan_effect c c)"

text \<open>
  Both effects depend on \<open>selectedPlan\<close> and \<open>plans\<close> only. After a render in which one of
  the two changed, both run; they run once more exactly when the first pass changed
  \<open>selectedPlan\<close>. A change of \<open>selectedDuration\<close> alone re-runs nothing. The second pass
  never changes \<open>selectedPlan\<close> again (lemma \<open>effects_pass_settled\<close>), so two passes reach
  the state React settles in.
\<close>

definition run_effects :: "page \<Rightarrow> page" where
  "run_effects s =
     (let s1 = effects_pass s
      in if selectedPlan s1 = selectedPlan s then s1 else effects_pass s1)"

subsection \<open>Events\<close>

text \<open>
  Modelled from the spec: the hook \<open>useRealTimeUpdates\<close> is not among the sources; its
  list starts empty and is replaced wholesale whenever the catalog changes. With the empty
  list and no plan, the effects of the first render change nothing, so \<open>initial_page\<close> is
  also the state after mounting.

  \<open>PlansUpdated\<close>: the catalog hook delivers a new snapshot, replacing the list.
  \<open>ClickPlan\<close>: a click on the card of a plan; only the plans of the list have a card, and
  setting the state to the value it has re-renders nothing.
  \<open>ChooseDuration\<close>: a choice in the radio group, which is rendered only while
  \<open>selectedPlan\<close> is truthy and offers, for every plan of the list whose id is the selected
  one, the keys of \<open>getAvailableDurations\<close>.
\<close>

datatype event = PlansUpdated "plan list" | ClickPlan string | ChooseDuration string

definition offeredDurations :: "page \<Rightarrow> string list" where
  "offeredDurations s =
     (if truthy (selectedPlan s)
      then concat (map (\<lambda>p. if Some (plan_id p) = selectedPlan s
                               then map fst (getAvailableDurations p) else [])
                       (plans s))
      else [])"

fun step :: "page \<Rightarrow> event \<Rightarrow> page" where
  "step s (PlansUpdated ps) = run_effects (s\<lparr>plans := ps\<rparr>)"
| "step s (ClickPlan i) =
     (if i \<notin> set (map plan_id (plans s)) \<or> selectedPlan s = Some i then s
      else run_effects (s\<lparr>selectedPlan := Some i\<rparr>))"
| "step s (ChooseDuration d) =
     (if d \<in> set (offeredDurations s) then s\<lparr>selectedDuration := d\<rparr> else s)"

definition run :: "event list \<Rightarrow> page" where
  "run es = foldl step initial_page es"

text \<open>The plan the page treats as selected: the first plan of the list with the selected
  id, when \<open>selectedPlan\<close> is truthy.\<close>

definition currentPlan :: "page \<Rightarrow> plan option" where
  "currentPlan s =
     (case selectedPlan s of
        None \<Rightarrow> None
      | Some sp \<Rightarrow> if sp = [] then None else find (\<lambda>p. plan_id p = sp) (plans s))"

definition selection_invariant :: "page \<Rightarrow> bool" where
  "selection_invariant s =
     (case currentPlan s of
        None \<Rightarrow> True
      | Some p \<Rightarrow> plan_price p \<noteq> 0 \<or> selectedDuration s = ''1dia'')"




text \<open>Plan ids are the primary key of the catalog table: a snapshot has no id twice.\<close>

fun catalog_ok :: "event \<Rightarrow> bool" where
  "catalog_ok (PlansUpdated ps) = distinct (map plan_id ps)"
| "catalog_ok _ = True"

subsection \<open>Continue\<close>

record browser =
  localStorage :: "string \<rightharpoonup> string"
  trace :: "effect list"

datatype completion = Returned | Threw string

text \<open>
  \<open>handleContinue\<close> of the plan selection page. \<open>plan?.name\<close> of a plan that is not in
  the list interpolates as "undefined"; \<open>durationOptions[selectedDuration].label\<close> of a
  key the table does not have throws a TypeError, after the two writes.
\<close>

definition PlanSelection_handleContinue :: "page \<Rightarrow> browser \<Rightarrow> completion \<times> browser" where
  "PlanSelection_handleContinue s b =
     (case selectedPlan s of
        None \<Rightarrow> (Returned, b)
      | Some sp \<Rightarrow>
          if sp = [] then (Returned, b)
          else
            let b1 = b\<lparr>localStorage := (localStorage b)(''selectedPlan'' \<mapsto> sp)\<rparr>;
                b2 = b1\<lparr>localStorage := (localStorage b1)(''selectedDuration'' \<mapsto> selectedDuration s)\<rparr>;
                pname = (case find (\<lambda>p. plan_id p = sp) (plans s) of
                           None \<Rightarrow> ''undefined''
                         | Some p \<Rightarrow> plan_name p)
            in (case map_of durationOptions (selectedDuration s) of
                  None \<Rightarrow> (Threw ''TypeError'', b2)
                | Some d \<Rightarrow>
                    (Returned,
                     b2\<lparr>trace := trace b2 @
                          [Toast (PlanoSelecionado (pname @ '' por '' @ label d)),
                           Navigate ''/verificacao'']\<rparr>)))"


text \<open>A duration key is known when \<open>durationOptions\<close> has it.\<close>

definition knownDuration :: "string \<Rightarrow> bool" where
  "knownDuration d = (d \<in> set (map fst durationOptions))"

section \<open>Payment dialog (src/components/payment/PaymentModal.tsx)\<close>

record card_details =
  card_number :: jsstring
  card_name :: jsstring
  card_expiry :: jsstring
  card_cvc :: jsstring

datatype card_field = Number | Name | Expiry | Cvc

text \<open>
  The state cells of the dialog, the \<open>open\<close> property it is rendered with, the number of
  callbacks handed to \<open>setTimeout\<close> that have not run yet (all of them are the same
  closure, with a delay of 2000 ms; the source never calls \<open>clearTimeout\<close>), and the
  trace of effects.
\<close>

record modal =
  paymentMethod :: string
  cardDetails :: card_details
  isProcessing :: bool
  dialogOpen :: bool
  timers :: nat
  modal_trace :: "effect list"

definition initial_modal :: modal where
  "initial_modal =
     \<lparr>paymentMethod = ''credit_card'',
      cardDetails = \<lparr>card_number = [], card_name = [], card_expiry = [], card_cvc = []\<rparr>,
      isProcessing = False, dialogOpen = True, timers = 0, modal_trace = []\<rparr>"

definition handleInputChange :: "card_field \<Rightarrow> jsstring \<Rightarrow> modal \<Rightarrow> modal" where
  "handleInputChange f v s =
     (case f of
        Number \<Rightarrow> s\<lparr>cardDetails := (cardDetails s)\<lparr>card_number := v\<rparr>\<rparr>
      | Name \<Rightarrow> s\<lparr>cardDetails := (cardDetails s)\<lparr>card_name := v\<rparr>\<rparr>
      | Expiry \<Rightarrow> s\<lparr>cardDetails := (cardDetails s)\<lparr>card_expiry := v\<rparr>\<rparr>
      | Cvc \<Rightarrow> s\<lparr>cardDetails := (cardDetails s)\<lparr>card_cvc := v\<rparr>\<rparr>)"

definition handleSubmit :: "modal \<Rightarrow> modal" where
  "handleSubmit s =
     (if paymentMethod s = ''credit_card'' \<and>
         (length (card_number (cardDetails s)) < 16 \<or> card_name (cardDetails s) = [] \<or>
          length (card_expiry (cardDetails s)) < 5 \<or> length (card_cvc (cardDetails s)) < 3)
      then s\<lparr>modal_trace := modal_trace s @ [Toast InformacoesIncompletas]\<rparr>
      else s\<lparr>isProcessing := True, timers := Suc (timers s),
             modal_trace := modal_trace s @ [SetTimeout 2000]\<rparr>)"

text \<open>
  Modelled from the spec: the \<open>onClose\<close> property is a callback of the hosting flow, which
  is not among the sources; the flow closes the dialog, that is, the \<open>open\<close> property
  becomes false. The call itself is recorded in the trace.
\<close>

definition onClose :: "modal \<Rightarrow> modal" where
  "onClose s = s\<lparr>dialogOpen := False, modal_trace := modal_trace s @ [OnClose]\<rparr>"

text \<open>The function handed to \<open>setTimeout\<close>.\<close>

definition timeoutCallback :: "modal \<Rightarrow> modal" where
  "timeoutCallback s =
     onClose (s\<lparr>isProcessing := False,
               modal_trace := modal_trace s @ [Toast PagamentoAprovado, OnPaymentComplete]\<rparr>)"

text \<open>
  What can happen to the dialog: the user picks a method, types into a card field, presses
  the pay button (disabled while processing), closes the dialog (\<open>onOpenChange\<close> calls
  \<open>onClose\<close>), or a pending timeout elapses. The controls exist only while the dialog is
  open; an elapsing timeout asks nothing about the dialog.
\<close>

datatype modal_event =
    SelectMethod string
  | TypeCard card_field jsstring
  | ClickSubmit
  | CloseDialog
  | TimerFires

fun modal_step :: "modal \<Rightarrow> modal_event \<Rightarrow> modal" where
  "modal_step s (SelectMethod m) = (if dialogOpen s then s\<lparr>paymentMethod := m\<rparr> else s)"
| "modal_step s (TypeCard f v) = (if dialogOpen s then handleInputChange f v s else s)"
| "modal_step s ClickSubmit =
     (if dialogOpen s \<and> \<not> isProcessing s then handleSubmit s else s)"
| "modal_step s CloseDialog = (if dialogOpen s then onClose s else s)"
| "modal_step s TimerFires =
     (if timers s = 0 then s else timeoutCallback (s\<lparr>timers := timers s - 1\<rparr>))"

definition modal_run :: "modal_event list \<Rightarrow> modal" where
  "modal_run es = foldl modal_step initial_modal es"

text \<open>The code units of an ASCII text, to write card inputs down.\<close>

definition ascii :: "string \<Rightarrow> jsstring" where
  "ascii s = map (\<lambda>c. of_nat (of_char c)) s"

section \<open>Document verification page (DocumentVerification)\<close>

text \<open>A document slot; its title and instruction are display text and are left out.\<close>

record document_image =
  img_id :: string
  img_file :: "blob option"
  img_preview :: string

record account =
  account_id :: string

text \<open>
  What awaiting a call of the storage or records client gives: the promise resolves to a
  response object, whose \<open>error\<close> field is null on success, or it rejects.
\<close>

datatype 'a awaited = Resolved 'a | Rejected

record response =
  error :: "string option"

text \<open>
  The storage and records services are external; how they answer is a parameter. An
  upload is answered by key and file, an insert by row, and the public address of a key
  is a function of the key.
\<close>

record backend =
  upload_reply :: "string \<Rightarrow> blob \<Rightarrow> response awaited"
  public_url :: "string \<Rightarrow> string"
  insert_reply :: "verification_row \<Rightarrow> response awaited"

text \<open>The three readings of \<open>Date.now()\<close>, in milliseconds.\<close>

record clock =
  now_front :: nat
  now_back :: nat
  now_selfie :: nat

text \<open>
  The objects of the bucket "verifications", the rows of the table
  "verification_documents", the state cell \<open>isUploading\<close> and the trace of effects.
\<close>

record world =
  bucket :: "(string \<times> blob) list"
  table_rows :: "verification_row list"
  isUploading :: bool
  world_trace :: "effect list"

datatype thrown = FilesMissing | ErrorUploadingFiles | InsertFailed string | PromiseRejected

text \<open>A number in a template literal: its decimal digits.\<close>

fun show_nat :: "nat \<Rightarrow> string" where
  "show_nat n =
     (if n < 10 then [char_of (48 + n)]
      else show_nat (n div 10) @ [char_of (48 + n mod 10)])"

declare show_nat.simps [simp del]

text \<open>The storage key \<open>`verification/${user.id}/${slot}_${Date.now()}`\<close>.\<close>

definition storageKey :: "account \<Rightarrow> string \<Rightarrow> nat \<Rightarrow> string" where
  "storageKey u slot t = ''verification/'' @ account_id u @ ''/'' @ slot @ ''_'' @ show_nat t"

definition succeeded :: "response awaited \<Rightarrow> bool" where
  "succeeded a = (case a of Resolved r \<Rightarrow> error r = None | Rejected \<Rightarrow> False)"

text \<open>
  Modelled from the spec: the object store (\<open>upload(bucket, key, binary)\<close> gives a path or
  an error) keeps the object exactly when the upload succeeds; the records store keeps
  the row exactly when the insert succeeds.
\<close>

definition storage_upload ::
  "backend \<Rightarrow> string \<Rightarrow> blob \<Rightarrow> world \<Rightarrow> response awaited \<times> world" where
  "storage_upload be path f w =
     (let a = upload_reply be path f;
          w1 = w\<lparr>world_trace := world_trace w @ [StorageUpload ''verifications'' path f]\<rparr>
      in (a, if succeeded a then w1\<lparr>bucket := bucket w1 @ [(path, f)]\<rparr> else w1))"

definition records_insert ::
  "backend \<Rightarrow> verification_row \<Rightarrow> world \<Rightarrow> response awaited \<times> world" where
  "records_insert be row w =
     (let a = insert_reply be row;
          w1 = w\<lparr>world_trace := world_trace w @ [RecordInsert ''verification_documents'' row]\<rparr>
      in (a, if succeeded a then w1\<lparr>table_rows := table_rows w1 @ [row]\<rparr> else w1))"

definition getPublicUrl :: "backend \<Rightarrow> string \<Rightarrow> world \<Rightarrow> string \<times> world" where
  "getPublicUrl be path w =
     (public_url be path,
      w\<lparr>world_trace := world_trace w @ [GetPublicUrl ''verifications'' path]\<rparr>)"

text \<open>\<open>documentImages.find(img => img.id === i)?.file\<close>\<close>

definition fileOf :: "string \<Rightarrow> document_image list \<Rightarrow> blob option" where
  "fileOf i imgs =
     (case find (\<lambda>img. img_id img = i) imgs of None \<Rightarrow> None | Some img \<Rightarrow> img_file img)"

text \<open>
  The body of the \<open>try\<close> block of \<open>handleContinue\<close>: \<open>Inl\<close> is what it throws. The three
  uploads are awaited one after the other, and their \<open>error\<close> fields are looked at only
  after the third.
\<close>

definition uploadAndRecord ::
  "backend \<Rightarrow> clock \<Rightarrow> account \<Rightarrow> document_image list \<Rightarrow> world \<Rightarrow> (thrown + unit) \<times> world" where
  "uploadAndRecord be clk u imgs w =
     (let frontPath = storageKey u ''front'' (now_front clk);
          backPath = storageKey u ''back'' (now_back clk);
          selfiePath = storageKey u ''selfie'' (now_selfie clk)
      in case (fileOf ''front'' imgs, fileOf ''back'' imgs, fileOf ''selfie'' imgs) of
           (Some frontFile, Some backFile, Some selfieFile) \<Rightarrow>
             (case storage_upload be frontPath frontFile w of
                (Rejected, w1) \<Rightarrow> (Inl PromiseRejected, w1)
              | (Resolved frontUpload, w1) \<Rightarrow>
             (case storage_upload be backPath backFile w1 of
                (Rejected, w2) \<Rightarrow> (Inl PromiseRejected, w2)
              | (Resolved backUpload, w2) \<Rightarrow>
             (case storage_upload be selfiePath selfieFile w2 of
                (Rejected, w3) \<Rightarrow> (Inl PromiseRejected, w3)
              | (Resolved selfieUpload, w3) \<Rightarrow>
                  if error frontUpload \<noteq> None \<or> error backUpload \<noteq> None \<or>
                     error selfieUpload \<noteq> None
                  then (Inl ErrorUploadingFiles, w3)
                  else
                    let (frontUrl, w4) = getPublicUrl be frontPath w3;
                        (backUrl, w5) = getPublicUrl be backPath w4;
                        (selfieUrl, w6) = getPublicUrl be selfiePath w5;
                        row = \<lparr>user_id = account_id u,
                               document_front_url = frontUrl,
                               document_back_url = backUrl,
                               document_selfie_url = selfieUrl,
                               status = ''pending''\<rparr>
                    in (case records_insert be row w6 of
                          (Rejected, w7) \<Rightarrow> (Inl PromiseRejected, w7)
                        | (Resolved r, w7) \<Rightarrow>
                            (case error r of
                               Some e \<Rightarrow> (Inl (InsertFailed e), w7)
                             | None \<Rightarrow>
                                 (Inr (),
                                  w7\<lparr>world_trace := world_trace w7 @
                                       [Toast DocumentosEnviados, Navigate ''/dashboard'']\<rparr>))))))
         | _ \<Rightarrow> (Inl FilesMissing, w))"

definition DocumentVerification_handleContinue ::
  "backend \<Rightarrow> clock \<Rightarrow> account option \<Rightarrow> document_image list \<Rightarrow> world \<Rightarrow> world" where
  "DocumentVerification_handleContinue be clk user imgs w =
     (case user of
        None \<Rightarrow> w\<lparr>world_trace := world_trace w @ [Toast PrecisaEstarLogado, Navigate ''/auth'']\<rparr>
      | Some u \<Rightarrow>
          if \<not> list_all (\<lambda>img. img_file img \<noteq> None) imgs
          then w\<lparr>world_trace := world_trace w @ [Toast DocumentosIncompletos]\<rparr>
          else
            let (r, w1) = uploadAndRecord be clk u imgs (w\<lparr>isUploading := True\<rparr>);
                w2 = (case r of
                        Inl _ \<Rightarrow> w1\<lparr>world_trace := world_trace w1 @
                                      [ConsoleError, Toast ErroAoEnviarDocumentos]\<rparr>
                      | Inr _ \<Rightarrow> w1)
            in w2\<lparr>isUploading := False\<rparr>)"


section \<open>Sample inputs\<close>

definition demo_plans :: "plan list" where
  "demo_plans =
     [\<lparr>plan_id = ''rubi'', plan_name = ''Rubi'', plan_price = 99\<rparr>,
      \<lparr>plan_id = ''gratis'', plan_name = ''Gratis'', plan_price = 0\<rparr>]"

definition demo_browser :: browser where
  "demo_browser =
     \<lparr>localStorage = [''selectedPlan'' \<mapsto> ''old'', ''other'' \<mapsto> ''kept''], trace = []\<rparr>"

definition demo_card :: card_details where
  "demo_card =
     \<lparr>card_number = ascii ''4111111111111111'', card_name = ascii ''A'',
      card_expiry = ascii ''12/30'', card_cvc = ascii ''123''\<rparr>"

definition demo_short_card :: card_details where
  "demo_short_card = demo_card\<lparr>card_number := ascii ''123''\<rparr>"

definition demo_images :: "document_image list" where
  "demo_images =
     [\<lparr>img_id = ''front'', img_file = Some (File ''front.jpg''), img_preview = ''data:front''\<rparr>,
      \<lparr>img_id = ''back'', img_file = Some (File ''back.jpg''), img_preview = ''data:back''\<rparr>,
      \<lparr>img_id = ''selfie'', img_file = Some (File ''selfie.jpg''), img_preview = ''data:selfie''\<rparr>]"

definition demo_images_no_selfie :: "document_image list" where
  "demo_images_no_selfie =
     [\<lparr>img_id = ''front'', img_file = Some (File ''front.jpg''), img_preview = ''data:front''\<rparr>,
      \<lparr>img_id = ''back'', img_file = Some (File ''back.jpg''), img_preview = ''data:back''\<rparr>,
      \<lparr>img_id = ''selfie'', img_file = None, img_preview = ''/placeholder.svg''\<rparr>]"

definition demo_account :: account where
  "demo_account = \<lparr>account_id = ''u1''\<rparr>"

definition demo_clock :: clock where
  "demo_clock = \<lparr>now_front = 1700, now_back = 1700, now_selfie = 1701\<rparr>"

definition demo_world :: world where
  "demo_world = \<lparr>bucket = [], table_rows = [], isUploading = False, world_trace = []\<rparr>"

text \<open>A backend that accepts everything, and one whose storage refuses the back side.\<close>

definition demo_backend :: backend where
  "demo_backend =
     \<lparr>upload_reply = (\<lambda>path f. Resolved \<lparr>error = None\<rparr>),
      public_url = (\<lambda>path. ''https://cdn/'' @ path),
      insert_reply = (\<lambda>row. Resolved \<lparr>error = None\<rparr>)\<rparr>"

definition demo_backend_back_fails :: backend where
  "demo_backend_back_fails =
     demo_backend\<lparr>upload_reply :=
       (\<lambda>path f. if f = File ''back.jpg'' then Resolved \<lparr>error = Some ''denied''\<rparr>
                  else Resolved \<lparr>error = None\<rparr>)\<rparr>"

section \<open>JavaScript numbers: proofs\<close>


lemma binade_lower:
  assumes "x \<noteq> 0"
  shows "2 powi (binade x) \<le> \<bar>x\<bar>"
proof (cases "1 \<le> \<bar>x\<bar>")
  case True
  then have pos: "0 < \<lfloor>\<bar>x\<bar>\<rfloor>" by linarith
  have b: "1 \<le> bitlen \<lfloor>\<bar>x\<bar>\<rfloor>"
    using pos bitlen_eq_zero_iff [of "\<lfloor>\<bar>x\<bar>\<rfloor>"] bitlen_nonneg [of "\<lfloor>\<bar>x\<bar>\<rfloor>"] by linarith
  have "(2::int) ^ nat (bitlen \<lfloor>\<bar>x\<bar>\<rfloor> - 1) \<le> \<lfloor>\<bar>x\<bar>\<rfloor>"
    using bitlen_bounds [OF pos] by simp
  then have "(of_int ((2::int) ^ nat (bitlen \<lfloor>\<bar>x\<bar>\<rfloor> - 1)) :: rat) \<le> of_int \<lfloor>\<bar>x\<bar>\<rfloor>"
    by (simp only: of_int_le_iff)
  also have "\<dots> \<le> \<bar>x\<bar>" by linarith
  finally have "(2::rat) ^ nat (bitlen \<lfloor>\<bar>x\<bar>\<rfloor> - 1) \<le> \<bar>x\<bar>" by simp
  then show ?thesis using True b by (simp add: binade_def power_int_def)
next
  case False
  define y where "y = 1 / \<bar>x\<bar>"
  define z where "z = \<lceil>y\<rceil> - 1"
  have xpos: "0 < \<bar>x\<bar>" using assms by simp
  have y1: "1 < y" using False xpos by (simp add: y_def)
  then have zpos: "0 < z" unfolding z_def by linarith
  have "z < 2 ^ nat (bitlen z)" using bitlen_bounds [OF zpos] by simp
  then have "\<lceil>y\<rceil> \<le> 2 ^ nat (bitlen z)" unfolding z_def by linarith
  then have "y \<le> of_int (2 ^ nat (bitlen z))" by (simp only: ceiling_le_iff)
  then have yb: "y \<le> 2 ^ nat (bitlen z)" by simp
  have "1 / (2::rat) ^ nat (bitlen z) \<le> 1 / y"
    using yb y1 by (intro divide_left_mono) auto
  then have "inverse ((2::rat) ^ nat (bitlen z)) \<le> \<bar>x\<bar>"
    using xpos by (simp add: y_def inverse_eq_divide)
  moreover have "binade x = - bitlen z"
    using False by (simp add: binade_def z_def y_def)
  moreover have "(2::rat) powi (- bitlen z) = inverse (2 ^ nat (bitlen z))"
    using bitlen_nonneg [of z] by (simp add: power_int_minus power_int_nonneg_exp)
  ultimately show ?thesis by simp
qed


lemma binade_upper:
  assumes "x \<noteq> 0"
  shows "\<bar>x\<bar> < 2 powi (binade x + 1)"
proof (cases "1 \<le> \<bar>x\<bar>")
  case True
  then have pos: "0 < \<lfloor>\<bar>x\<bar>\<rfloor>" by linarith
  have "\<lfloor>\<bar>x\<bar>\<rfloor> < 2 ^ nat (bitlen \<lfloor>\<bar>x\<bar>\<rfloor>)"
    using bitlen_bounds [OF pos] by simp
  then have "\<bar>x\<bar> < of_int (2 ^ nat (bitlen \<lfloor>\<bar>x\<bar>\<rfloor>))" by (simp only: floor_less_iff)
  then have "\<bar>x\<bar> < 2 ^ nat (bitlen \<lfloor>\<bar>x\<bar>\<rfloor>)" by simp
  then show ?thesis
    using True bitlen_nonneg [of "\<lfloor>\<bar>x\<bar>\<rfloor>"] by (simp add: binade_def power_int_nonneg_exp)
next
  case False
  define y where "y = 1 / \<bar>x\<bar>"
  define z where "z = \<lceil>y\<rceil> - 1"
  have xpos: "0 < \<bar>x\<bar>" using assms by simp
  have y1: "1 < y" using False xpos by (simp add: y_def)
  then have zpos: "0 < z" unfolding z_def by linarith
  have b: "1 \<le> bitlen z"
    using zpos bitlen_eq_zero_iff [of z] bitlen_nonneg [of z] by linarith
  have "(2::int) ^ nat (bitlen z - 1) \<le> z" using bitlen_bounds [OF zpos] by simp
  then have "(2::int) ^ nat (bitlen z - 1) < \<lceil>y\<rceil>" unfolding z_def by linarith
  then have "of_int ((2::int) ^ nat (bitlen z - 1)) < y" by (simp only: less_ceiling_iff)
  then have yb: "(2::rat) ^ nat (bitlen z - 1) < y" by simp
  have "1 / y < 1 / (2::rat) ^ nat (bitlen z - 1)"
    using yb y1 by (intro divide_strict_left_mono) (auto intro: mult_pos_pos)
  then have "\<bar>x\<bar> < inverse ((2::rat) ^ nat (bitlen z - 1))"
    using xpos by (simp add: y_def inverse_eq_divide)
  moreover have "binade x + 1 = - (bitlen z - 1)"
    using False by (simp add: binade_def z_def y_def)
  moreover have "(2::rat) powi (- (bitlen z - 1)) = inverse (2 ^ nat (bitlen z - 1))"
    using b by (simp only: power_int_minus) (simp add: power_int_nonneg_exp)
  ultimately show ?thesis by simp
qed

lemma round_half_even_of_int: "round_half_even (of_int m) = m"
  by (simp add: round_half_even_def)

lemma to_double_representable:
  assumes "representable y"
  shows "to_double y = Fin y"
proof (cases "y = 0")
  case True
  then show ?thesis by (simp add: to_double_def)
next
  case False
  from assms obtain n k where n: "\<bar>n\<bar> < 2 ^ 53" and k: "- 1074 \<le> k" "k \<le> 971"
    and y: "y = of_int n * 2 powi k"
    by (auto simp: representable_def)
  define t where "t = max (binade y) (- 1022) - 52"
  have "\<bar>of_int n :: rat\<bar> < 2 ^ 53" using n by (metis of_int_abs of_int_less_numeral_power_cancel_iff)
  then have ylt: "\<bar>y\<bar> < 2 ^ 53 * 2 powi k"
    unfolding y by (simp add: abs_mult)
  note ylt
  also have "\<dots> = 2 powi (k + 53)" by (simp add: power_int_add)
  finally have "2 powi (binade y) < (2::rat) powi (k + 53)"
    using binade_lower [OF False] by linarith
  then have "binade y < k + 53"
    using power_int_increasing [of "k + 53" "binade y" "2::rat"] by (cases "binade y < k + 53") auto
  then have tk: "t \<le> k" using k unfolding t_def by linarith
  have "y / 2 powi t = of_int n * 2 powi (k - t)"
    unfolding y by (simp add: power_int_diff)
  also have "\<dots> = of_int (n * 2 ^ nat (k - t))"
    using tk by (simp add: power_int_nonneg_exp)
  finally have q: "y / 2 powi t = of_int (n * 2 ^ nat (k - t))" .
  have unscale: "of_int (n * 2 ^ nat (k - t)) * 2 powi t = y"
    using q by (simp add: field_simps)
  have "\<bar>y\<bar> < 2 powi (k + 53)" using ylt by (simp add: power_int_add)
  also have "\<dots> \<le> (2::rat) powi 1024" using k by (intro power_int_increasing) auto
  finally have small: "\<not> 2 powi 1024 \<le> \<bar>y\<bar>" by simp
  show ?thesis
    using False small
    by (simp add: to_double_def Let_def t_def [symmetric] q round_half_even_of_int unscale
        del: of_int_mult of_int_power)
qed


lemma round_half_even_bounds:
  "\<lfloor>z\<rfloor> \<le> round_half_even z" "round_half_even z \<le> \<lceil>z\<rceil>"
  "\<bar>of_int (round_half_even z) - z\<bar> \<le> 1 / 2"
proof -
  show "\<lfloor>z\<rfloor> \<le> round_half_even z" by (simp add: round_half_even_def)
  show "round_half_even z \<le> \<lceil>z\<rceil>"
    unfolding round_half_even_def by (auto simp: ceiling_altdef)
  have lo: "of_int \<lfloor>z\<rfloor> \<le> z" and hi: "z < of_int \<lfloor>z\<rfloor> + 1" by linarith+
  show "\<bar>of_int (round_half_even z) - z\<bar> \<le> 1 / 2"
  proof (cases "z - of_int \<lfloor>z\<rfloor> < 1 / 2")
    case True
    then have r: "round_half_even z = \<lfloor>z\<rfloor>" by (simp add: round_half_even_def)
    show ?thesis unfolding r using lo True by linarith
  next
    case False
    show ?thesis
    proof (cases "1 / 2 < z - of_int \<lfloor>z\<rfloor>")
      case True
      then have r: "of_int (round_half_even z) = (of_int \<lfloor>z\<rfloor> + 1 :: rat)"
        using False by (simp add: round_half_even_def)
      show ?thesis unfolding r using hi True by linarith
    next
      case nt: False
      with False have h: "z - of_int \<lfloor>z\<rfloor> = 1 / 2" by linarith
      have "round_half_even z = \<lfloor>z\<rfloor> \<or> round_half_even z = \<lfloor>z\<rfloor> + 1"
        by (simp add: round_half_even_def)
      then show ?thesis
      proof
        assume r: "round_half_even z = \<lfloor>z\<rfloor>"
        show ?thesis unfolding r using h by linarith
      next
        assume "round_half_even z = \<lfloor>z\<rfloor> + 1"
        then have r: "of_int (round_half_even z) = (of_int \<lfloor>z\<rfloor> + 1 :: rat)" by simp
        show ?thesis unfolding r using h by linarith
      qed
    qed
  qed
qed

text \<open>
  The rounding lands on a double, and within half the spacing of the argument's binade;
  on a tie \<open>round_half_even\<close> picks the even significand.
\<close>

lemma to_double_close:
  assumes "to_double x = Fin y"
  shows "\<bar>y - x\<bar> \<le> 2 powi (max (binade x) (- 1022) - 52) / 2"
proof (cases "x = 0")
  case True
  with assms show ?thesis by (simp add: to_double_def)
next
  case False
  define q :: rat where "q = 2 powi (max (binade x) (- 1022) - 52)"
  have qpos: "0 < q" by (simp add: q_def)
  from assms False have y: "y = of_int (round_half_even (x / q)) * q"
    by (simp add: to_double_def Let_def q_def split: if_splits)
  have "y - x = (of_int (round_half_even (x / q)) - x / q) * q"
    using qpos unfolding y by (simp add: field_simps)
  then have "\<bar>y - x\<bar> = \<bar>of_int (round_half_even (x / q)) - x / q\<bar> * q"
    using qpos by (simp add: abs_mult)
  also have "\<dots> \<le> 1 / 2 * q"
    using round_half_even_bounds(3) [of "x / q"] qpos by (intro mult_right_mono) auto
  finally show ?thesis by (simp add: q_def)
qed

lemma to_double_is_double:
  assumes "to_double x = Fin y"
  shows "representable y"
proof (cases "x = 0")
  case True
  with assms have "y = 0" by (simp add: to_double_def)
  then show ?thesis unfolding representable_def by (intro exI [of _ 0]) simp
next
  case False
  define t where "t = max (binade x) (- 1022) - 52"
  define q :: rat where "q = 2 powi t"
  define n where "n = round_half_even (x / q)"
  have qpos: "0 < q" by (simp add: q_def)
  from assms False have y: "y = of_int n * q" and small: "\<bar>y\<bar> < 2 powi 1024"
    by (simp_all add: to_double_def Let_def q_def t_def n_def split: if_splits)
  have t_lo: "- 1074 \<le> t" by (simp add: t_def)
  have "\<bar>x\<bar> < 2 powi (binade x + 1)" using False by (rule binade_upper)
  also have "\<dots> \<le> (2::rat) powi (t + 53)"
    by (intro power_int_increasing) (simp_all add: t_def)
  also have "\<dots> = 2 ^ 53 * q" by (simp add: q_def power_int_add)
  finally have "\<bar>x / q\<bar> < 2 ^ 53" using qpos by (simp add: abs_if field_simps split: if_splits)
  then have z: "- (2 ^ 53) < x / q" "x / q < 2 ^ 53" by linarith+
  have "- (2 ^ 53) \<le> \<lfloor>x / q\<rfloor>" using z(1) by (simp add: le_floor_iff)
  moreover have "\<lceil>x / q\<rceil> \<le> 2 ^ 53" using z(2) by (simp add: ceiling_le_iff)
  ultimately have nb: "\<bar>n\<bar> \<le> 2 ^ 53"
    using round_half_even_bounds(1,2) [of "x / q"] unfolding n_def by linarith
  have absy: "\<bar>y\<bar> = of_int \<bar>n\<bar> * q" using qpos by (simp add: y abs_mult)
  show ?thesis
  proof (cases "\<bar>n\<bar> = 2 ^ 53")
    case True
    have "(2::rat) powi (t + 53) = of_int \<bar>n\<bar> * q"
      unfolding True by (simp add: q_def power_int_add)
    then have "(2::rat) powi (t + 53) < 2 powi 1024" using small absy by simp
    then have "t + 53 < 1024"
      using power_int_increasing [of 1024 "t + 53" "2::rat"] by (cases "t + 53 < 1024") auto
    moreover have "y = of_int (n div 2) * 2 powi (t + 1)"
    proof -
      from True have "n = 2 ^ 53 \<or> n = - (2 ^ 53)" by linarith
      then have "n = 2 * (n div 2)" by (elim disjE) simp_all
      then have "of_int n = (2 * of_int (n div 2) :: rat)"
        by (metis of_int_mult of_int_numeral)
      then show ?thesis by (simp add: y q_def power_int_add)
    qed
    moreover have "\<bar>n div 2\<bar> < 2 ^ 53"
    proof -
      from True have "n = 2 ^ 53 \<or> n = - (2 ^ 53)" by linarith
      then show ?thesis by (elim disjE) simp_all
    qed
    ultimately show ?thesis
      unfolding representable_def using t_lo
      by (intro exI [of _ "n div 2"] exI [of _ "t + 1"]) simp
  next
    case ne: False
    with nb have lt: "\<bar>n\<bar> < 2 ^ 53" by linarith
    show ?thesis
    proof (cases "t = - 1074 \<or> n = 0")
      case True
      then show ?thesis
      proof
        assume "t = - 1074"
        then show ?thesis unfolding representable_def using lt y
          by (intro exI [of _ n] exI [of _ t]) (simp add: q_def)
      next
        assume "n = 0"
        then show ?thesis unfolding representable_def using y
          by (intro exI [of _ 0]) simp
      qed
    next
      case False
      then have tb: "t = binade x - 52" and bx: "- 1022 < binade x"
        using t_lo by (auto simp: t_def max_def split: if_splits)
      have "2 powi (binade x) \<le> \<bar>x\<bar>" using \<open>x \<noteq> 0\<close> by (rule binade_lower)
      moreover have "(2::rat) powi (binade x) = 2 ^ 52 * q"
        by (simp add: q_def tb power_int_diff)
      ultimately have "2 ^ 52 \<le> \<bar>x / q\<bar>" using qpos by (simp add: field_simps)
      then consider "2 ^ 52 \<le> x / q" | "x / q \<le> - (2 ^ 52)" by linarith
      then have "2 ^ 52 \<le> \<bar>n\<bar>"
      proof cases
        case 1
        then have "2 ^ 52 \<le> \<lfloor>x / q\<rfloor>" by (simp add: le_floor_iff)
        then show ?thesis using round_half_even_bounds(1) [of "x / q"] unfolding n_def by linarith
      next
        case 2
        then have "\<lceil>x / q\<rceil> \<le> - (2 ^ 52)" by (simp add: ceiling_le_iff)
        then show ?thesis using round_half_even_bounds(2) [of "x / q"] unfolding n_def by linarith
      qed
      then have "(2 ^ 52 :: rat) \<le> of_int \<bar>n\<bar>"
        by (metis of_int_le_iff of_int_numeral of_int_power)
      then have "2 ^ 52 * q \<le> \<bar>y\<bar>" using qpos unfolding absy by (intro mult_right_mono) auto
      then have "(2::rat) powi (t + 52) < 2 powi 1024"
        using small by (simp add: q_def power_int_add)
      then have "t + 52 < 1024"
        using power_int_increasing [of 1024 "t + 52" "2::rat"] by (cases "t + 52 < 1024") auto
      then show ?thesis unfolding representable_def using lt y t_lo
        by (intro exI [of _ n] exI [of _ t]) (simp add: q_def)
    qed
  qed
qed

section \<open>Plan selection: proofs\<close>


lemma round_half_up_nearest:
  "\<bar>of_int (round_half_up x) - x\<bar> \<le> 1 / 2 \<and> (\<bar>of_int (round_half_up x) - x\<bar> = 1 / 2 \<longrightarrow> x < of_int (round_half_up x))"
proof -
  have lo: "of_int \<lfloor>x\<rfloor> \<le> x" and hi: "x < of_int \<lfloor>x\<rfloor> + 1"
    by linarith+
  show ?thesis
  proof (cases "x - of_int \<lfloor>x\<rfloor> < 1 / 2")
    case True
    then have r: "round_half_up x = \<lfloor>x\<rfloor>" by (simp add: round_half_up_def)
    show ?thesis unfolding r using lo True by linarith
  next
    case False
    then have r: "of_int (round_half_up x) = (of_int \<lfloor>x\<rfloor> + 1 :: rat)"
      by (simp add: round_half_up_def)
    show ?thesis unfolding r using hi False by linarith
  qed
qed

lemma effects_pass_settled:
  "selectedPlan (effects_pass (effects_pass s)) = selectedPlan (effects_pass s)"
  by (auto simp: effects_pass_def initial_plan_effect_def free_plan_effect_def truthy_def
      split: list.splits option.splits)

lemma plans_effects_pass: "plans (effects_pass s) = plans s"
  by (auto simp: effects_pass_def initial_plan_effect_def free_plan_effect_def
      split: list.splits option.splits)

lemma plans_run_effects: "plans (run_effects s) = plans s"
  by (simp add: run_effects_def Let_def plans_effects_pass)

lemma invariant_effects_pass:
  "selectedPlan (effects_pass s) = selectedPlan s \<Longrightarrow> selection_invariant (effects_pass s)"
  by (auto simp: effects_pass_def initial_plan_effect_def free_plan_effect_def truthy_def
      selection_invariant_def currentPlan_def
      split: list.splits option.splits if_splits)

lemma invariant_run_effects: "selection_invariant (run_effects s)"
  unfolding run_effects_def Let_def
  using invariant_effects_pass [of s] invariant_effects_pass [of "effects_pass s"]
    effects_pass_settled [of s]
  by simp


lemma find_distinct_filter:
  "distinct (map plan_id ps) \<Longrightarrow> find (\<lambda>p. plan_id p = i) ps = Some q \<Longrightarrow>
     filter (\<lambda>p. plan_id p = i) ps = [q]"
proof (induction ps)
  case Nil
  then show ?case by simp
next
  case (Cons a ps)
  show ?case
  proof (cases "plan_id a = i")
    case True
    from Cons.prems(2) True have qa: "q = a" by simp
    from Cons.prems(1) True have "i \<notin> plan_id ` set ps" by auto
    then have "\<forall>p\<in>set ps. plan_id p \<noteq> i" by blast
    with True qa show ?thesis by (simp add: filter_empty_conv)
  next
    case False
    with Cons show ?thesis by simp
  qed
qed

lemma concat_map_filter:
  "concat (map (\<lambda>p. if P p then f p else []) ps) = concat (map f (filter P ps))"
  by (induction ps) auto

lemma offered_of_currentPlan:
  assumes "distinct (map plan_id (plans s))" and "currentPlan s = Some p"
  shows "offeredDurations s = map fst (getAvailableDurations p)"
proof -
  from assms(2) obtain sp where sp: "selectedPlan s = Some sp" "sp \<noteq> []"
    "find (\<lambda>q. plan_id q = sp) (plans s) = Some p"
    by (auto simp: currentPlan_def split: option.splits if_splits)
  have "filter (\<lambda>q. Some (plan_id q) = selectedPlan s) (plans s) =
        filter (\<lambda>q. plan_id q = sp) (plans s)"
    by (rule filter_cong) (auto simp: sp(1))
  then have "filter (\<lambda>q. Some (plan_id q) = selectedPlan s) (plans s) = [p]"
    using find_distinct_filter [OF assms(1) sp(3)] by simp
  then show ?thesis
    using sp by (simp add: offeredDurations_def truthy_def concat_map_filter)
qed

lemma getAvailableDurations_free:
  "plan_price p = 0 \<Longrightarrow>
     getAvailableDurations p = [(''1dia'', \<lparr>label = ''1 dia'', multiplier = 1 / 2\<rparr>)]"
  by (simp add: getAvailableDurations_def durationOptions_def)

lemma currentPlan_choose:
  "currentPlan (step s (ChooseDuration d)) = currentPlan s"
  by (simp add: currentPlan_def split: option.splits)

lemma invariant_step:
  assumes "distinct (map plan_id (plans s))" and "selection_invariant s"
  shows "selection_invariant (step s e)"
proof (cases e)
  case (PlansUpdated ps)
  then show ?thesis by (simp add: invariant_run_effects)
next
  case (ClickPlan i)
  then show ?thesis using assms(2) by (simp add: invariant_run_effects)
next
  case (ChooseDuration d)
  show ?thesis
  proof (cases "currentPlan s")
    case None
    then have "currentPlan (step s e) = None"
      by (simp only: ChooseDuration currentPlan_choose)
    then show ?thesis by (simp add: selection_invariant_def)
  next
    case (Some p)
    then have cp: "currentPlan (step s e) = Some p"
      by (simp only: ChooseDuration currentPlan_choose)
    show ?thesis
    proof (cases "plan_price p = 0")
      case True
      have "offeredDurations s = [''1dia'']"
        using offered_of_currentPlan [OF assms(1) Some] getAvailableDurations_free [OF True]
        by simp
      then have "selectedDuration (step s e) = ''1dia'' \<or> step s e = s"
        by (simp add: ChooseDuration)
      then show ?thesis using assms(2) Some True cp
        by (auto simp: selection_invariant_def)
    next
      case False
      then show ?thesis using cp by (simp add: selection_invariant_def)
    qed
  qed
qed

lemma plans_step:
  "catalog_ok e \<Longrightarrow> distinct (map plan_id (plans s)) \<Longrightarrow>
     distinct (map plan_id (plans (step s e)))"
  by (cases e) (simp_all add: plans_run_effects)

lemma run_snoc: "run (es @ [e]) = step (run es) e"
  by (simp add: run_def)

lemma plans_run:
  "\<forall>e\<in>set es. catalog_ok e \<Longrightarrow> distinct (map plan_id (plans (run es)))"
proof (induction es rule: rev_induct)
  case Nil
  then show ?case by (simp add: run_def initial_page_def)
next
  case (snoc e es)
  then show ?case by (simp add: run_snoc plans_step)
qed

lemma invariant_run:
  "\<forall>e\<in>set es. catalog_ok e \<Longrightarrow> selection_invariant (run es)"
proof (induction es rule: rev_induct)
  case Nil
  then show ?case
    by (simp add: run_def initial_page_def selection_invariant_def currentPlan_def)
next
  case (snoc e es)
  then show ?case by (simp add: run_snoc invariant_step plans_run)
qed

lemma find_member_distinct:
  "distinct (map plan_id ps) \<Longrightarrow> p \<in> set ps \<Longrightarrow> find (\<lambda>q. plan_id q = plan_id p) ps = Some p"
proof (induction ps)
  case Nil
  then show ?case by simp
next
  case (Cons a ps)
  show ?case
  proof (cases "p = a")
    case True
    then show ?thesis by simp
  next
    case False
    with Cons.prems have "p \<in> set ps" and "plan_id a \<notin> plan_id ` set ps" by auto
    then have "plan_id a \<noteq> plan_id p" by blast
    with Cons \<open>p \<in> set ps\<close> show ?thesis by simp
  qed
qed

lemma click_free_plan:
  assumes d: "distinct (map plan_id (plans s))" and inv: "selection_invariant s"
    and p: "p \<in> set (plans s)" "plan_price p = 0" "plan_id p \<noteq> []"
    and dur: "selectedDuration s \<noteq> ''1dia''"
  shows "selectedPlan (step s (ClickPlan (plan_id p))) = Some (plan_id p) \<and>
         selectedDuration (step s (ClickPlan (plan_id p))) = ''1dia''"
proof -
  have f: "find (\<lambda>q. plan_id q = plan_id p) (plans s) = Some p"
    using find_member_distinct [OF d p(1)] .
  have ne: "selectedPlan s \<noteq> Some (plan_id p)"
    using inv f p dur by (auto simp: selection_invariant_def currentPlan_def)
  have mem: "plan_id p \<in> set (map plan_id (plans s))" using p(1) by simp
  have st: "step s (ClickPlan (plan_id p)) = run_effects (s\<lparr>selectedPlan := Some (plan_id p)\<rparr>)"
    using ne mem by simp
  show ?thesis unfolding st using p(2,3) f dur
    by (simp add: run_effects_def Let_def effects_pass_def initial_plan_effect_def
        free_plan_effect_def truthy_def split: list.splits)
qed



lemma knownDuration_lookup: "knownDuration d \<Longrightarrow> \<exists>opt. map_of durationOptions d = Some opt"
  unfolding knownDuration_def by (metis map_of_eq_None_iff not_Some_eq set_map)

lemma known_1dia: "knownDuration ''1dia''"
  by (simp add: knownDuration_def durationOptions_def)

lemma known_effects_pass:
  "knownDuration (selectedDuration s) \<Longrightarrow> knownDuration (selectedDuration (effects_pass s))"
  by (auto simp: effects_pass_def initial_plan_effect_def free_plan_effect_def known_1dia
      split: list.splits option.splits)

lemma known_run_effects:
  "knownDuration (selectedDuration s) \<Longrightarrow> knownDuration (selectedDuration (run_effects s))"
  by (simp add: run_effects_def Let_def known_effects_pass)

lemma offered_known: "d \<in> set (offeredDurations s) \<Longrightarrow> knownDuration d"
  by (auto simp: offeredDurations_def getAvailableDurations_def knownDuration_def
      durationOptions_def split: if_splits)

lemma known_step:
  "knownDuration (selectedDuration s) \<Longrightarrow> knownDuration (selectedDuration (step s e))"
  by (cases e) (auto simp: known_run_effects offered_known)

lemma known_run: "knownDuration (selectedDuration (run es))"
proof (induction es rule: rev_induct)
  case Nil
  show ?case by (simp add: run_def initial_page_def knownDuration_def durationOptions_def)
next
  case (snoc e es)
  then show ?case by (simp add: run_snoc known_step)
qed

lemma continue_no_plan:
  "\<not> truthy (selectedPlan s) \<Longrightarrow> PlanSelection_handleContinue s b = (Returned, b)"
  by (auto simp: PlanSelection_handleContinue_def truthy_def split: option.splits)

lemma continue_with_plan:
  assumes "selectedPlan s = Some sp" "sp \<noteq> []" "knownDuration (selectedDuration s)"
  shows "\<exists>descr. PlanSelection_handleContinue s b =
     (Returned,
      b\<lparr>localStorage := (localStorage b)(''selectedPlan'' \<mapsto> sp,
                                          ''selectedDuration'' \<mapsto> selectedDuration s),
        trace := trace b @ [Toast (PlanoSelecionado descr), Navigate ''/verificacao'']\<rparr>)"
proof -
  from knownDuration_lookup [OF assms(3)] obtain opt
    where "map_of durationOptions (selectedDuration s) = Some opt" ..
  then have "PlanSelection_handleContinue s b =
     (Returned,
      b\<lparr>localStorage := (localStorage b)(''selectedPlan'' \<mapsto> sp,
                                          ''selectedDuration'' \<mapsto> selectedDuration s),
        trace := trace b @
          [Toast (PlanoSelecionado
             ((case find (\<lambda>p. plan_id p = sp) (plans s) of
                 None \<Rightarrow> ''undefined'' | Some p \<Rightarrow> plan_name p) @ '' por '' @ label opt)),
           Navigate ''/verificacao'']\<rparr>)"
    using assms(1,2) by (simp add: PlanSelection_handleContinue_def Let_def)
  then show ?thesis by blast
qed

text \<open>
  Claim C9. In every state the page can reach, \<open>handleContinue\<close> does nothing when no plan
  is selected (\<open>selectedPlan\<close> is null or empty): it returns with the browser state as it
  was, so nothing is written and no navigation happens. When a plan is selected it
  returns normally after writing exactly the keys "selectedPlan" and "selectedDuration" of
  the local storage (replacing earlier values, leaving other keys alone), showing the
  "Plano selecionado" notice and navigating to "/verificacao".
\<close>

theorem continue_iff_plan_selected:
  "(\<not> truthy (selectedPlan (run es)) \<longrightarrow>
      PlanSelection_handleContinue (run es) b = (Returned, b)) \<and>
   (\<forall>sp. selectedPlan (run es) = Some sp \<and> sp \<noteq> [] \<longrightarrow>
      (\<exists>descr. PlanSelection_handleContinue (run es) b =
         (Returned,
          b\<lparr>localStorage := (localStorage b)(''selectedPlan'' \<mapsto> sp,
                                 ''selectedDuration'' \<mapsto> selectedDuration (run es)),
            trace := trace b @ [Toast (PlanoSelecionado descr), Navigate ''/verificacao'']\<rparr>)))"
  using continue_no_plan continue_with_plan known_run by blast


lemma demo_run:
  "run [PlansUpdated demo_plans, ChooseDuration ''3meses''] =
     \<lparr>selectedPlan = Some ''rubi'', selectedDuration = ''3meses'', plans = demo_plans\<rparr>"
  by code_simp

theorem continue_iff_plan_selected_witness:
  "\<not> truthy (selectedPlan (run [])) \<and>
   PlanSelection_handleContinue (run []) demo_browser = (Returned, demo_browser) \<and>
   selectedPlan (run [PlansUpdated demo_plans, ChooseDuration ''3meses'']) = Some ''rubi'' \<and>
   localStorage (snd (PlanSelection_handleContinue
       (run [PlansUpdated demo_plans, ChooseDuration ''3meses'']) demo_browser)) ''selectedPlan''
     = Some ''rubi'' \<and>
   localStorage (snd (PlanSelection_handleContinue
       (run [PlansUpdated demo_plans, ChooseDuration ''3meses'']) demo_browser)) ''selectedDuration''
     = Some ''3meses'' \<and>
   localStorage (snd (PlanSelection_handleContinue
       (run [PlansUpdated demo_plans, ChooseDuration ''3meses'']) demo_browser)) ''other''
     = Some ''kept'' \<and>
   last (trace (snd (PlanSelection_handleContinue
       (run [PlansUpdated demo_plans, ChooseDuration ''3meses'']) demo_browser)))
     = Navigate ''/verificacao''"
proof -
  have a: "\<not> truthy (selectedPlan (run []))"
    by (simp add: run_def initial_page_def truthy_def)
  have b: "selectedPlan (run [PlansUpdated demo_plans, ChooseDuration ''3meses'']) = Some ''rubi''"
    by (simp add: demo_run)
  from continue_iff_plan_selected [of "[]" demo_browser] a
  have c: "PlanSelection_handleContinue (run []) demo_browser = (Returned, demo_browser)"
    by blast
  from continue_iff_plan_selected
         [of "[PlansUpdated demo_plans, ChooseDuration ''3meses'']" demo_browser] b
  obtain descr where
    "PlanSelection_handleContinue
        (run [PlansUpdated demo_plans, ChooseDuration ''3meses'']) demo_browser =
       (Returned,
        demo_browser\<lparr>localStorage := (localStorage demo_browser)(''selectedPlan'' \<mapsto> ''rubi'',
             ''selectedDuration'' \<mapsto>
                selectedDuration (run [PlansUpdated demo_plans, ChooseDuration ''3meses''])),
          trace := trace demo_browser @
             [Toast (PlanoSelecionado descr), Navigate ''/verificacao'']\<rparr>)"
    by auto
  then show ?thesis using a b c by (simp add: demo_run demo_browser_def)
qed


text \<open>
  Claim C4. After every sequence of events whose catalog snapshots have pairwise distinct
  plan ids, the selection invariant holds: if the selected plan has price 0, the selected
  duration is "1dia". In particular, clicking a price-0 plan while "3meses" is selected
  selects that plan and sets the duration to "1dia"; and the durations available for a
  price-0 plan are exactly "1dia".
\<close>

theorem free_plan_forces_shortest_duration:
  assumes "\<forall>e\<in>set es. catalog_ok e"
  shows "selection_invariant (run es) \<and>
         (\<forall>p\<in>set (plans (run es)).
            plan_price p = 0 \<and> plan_id p \<noteq> [] \<and> selectedDuration (run es) = ''3meses'' \<longrightarrow>
              selectedPlan (step (run es) (ClickPlan (plan_id p))) = Some (plan_id p) \<and>
              selectedDuration (step (run es) (ClickPlan (plan_id p))) = ''1dia'') \<and>
         (\<forall>p. plan_price p = 0 \<longrightarrow> map fst (getAvailableDurations p) = [''1dia''])"
proof (intro conjI ballI allI impI)
  show "selection_invariant (run es)" using assms by (rule invariant_run)
next
  fix p assume "p \<in> set (plans (run es))"
    and "plan_price p = 0 \<and> plan_id p \<noteq> [] \<and> selectedDuration (run es) = ''3meses''"
  then have "selectedPlan (step (run es) (ClickPlan (plan_id p))) = Some (plan_id p) \<and>
      selectedDuration (step (run es) (ClickPlan (plan_id p))) = ''1dia''"
    using click_free_plan [OF plans_run [OF assms] invariant_run [OF assms], of p] by simp
  then show "selectedPlan (step (run es) (ClickPlan (plan_id p))) = Some (plan_id p)"
    and "selectedDuration (step (run es) (ClickPlan (plan_id p))) = ''1dia''" by simp_all
next
  fix p :: plan assume "plan_price p = 0"
  then show "map fst (getAvailableDurations p) = [''1dia'']"
    by (simp add: getAvailableDurations_free)
qed

theorem free_plan_forces_shortest_duration_witness:
  "list_all catalog_ok [PlansUpdated demo_plans, ChooseDuration ''3meses''] \<and>
   selectedDuration (run [PlansUpdated demo_plans, ChooseDuration ''3meses'']) = ''3meses'' \<and>
   selectedPlan (step (run [PlansUpdated demo_plans, ChooseDuration ''3meses''])
                   (ClickPlan ''gratis'')) = Some ''gratis'' \<and>
   selectedDuration (step (run [PlansUpdated demo_plans, ChooseDuration ''3meses''])
                   (ClickPlan ''gratis'')) = ''1dia'' \<and>
   list_all catalog_ok
     [PlansUpdated demo_plans, ChooseDuration ''3meses'', ClickPlan ''gratis''] \<and>
   map_option plan_price
     (currentPlan (run [PlansUpdated demo_plans, ChooseDuration ''3meses'', ClickPlan ''gratis'']))
     = Some 0 \<and>
   selection_invariant
     (run [PlansUpdated demo_plans, ChooseDuration ''3meses'', ClickPlan ''gratis''])"
proof -
  let ?es = "[PlansUpdated demo_plans, ChooseDuration ''3meses'']"
  let ?es' = "[PlansUpdated demo_plans, ChooseDuration ''3meses'', ClickPlan ''gratis'']"
  let ?free = "\<lparr>plan_id = ''gratis'', plan_name = ''Gratis'', plan_price = 0\<rparr>"
  have h: "\<forall>e\<in>set ?es. catalog_ok e" by (simp add: demo_plans_def)
  have h': "\<forall>e\<in>set ?es'. catalog_ok e" by (simp add: demo_plans_def)
  have m: "?free \<in> set (plans (run ?es))" unfolding demo_run by (simp add: demo_plans_def)
  have d: "selectedDuration (run ?es) = ''3meses''" by (simp add: demo_run)
  have c: "map_option plan_price (currentPlan (run ?es')) = Some 0" by code_simp
  from free_plan_forces_shortest_duration [OF h] m d
  have "selectedPlan (step (run ?es) (ClickPlan (plan_id ?free))) = Some (plan_id ?free) \<and>
        selectedDuration (step (run ?es) (ClickPlan (plan_id ?free))) = ''1dia''"
    by fastforce
  moreover from free_plan_forces_shortest_duration [OF h']
  have "selection_invariant (run ?es')" by blast
  ultimately show ?thesis using h h' d c by simp
qed


lemma floor_half_up: "\<lfloor>x + 1 / 2\<rfloor> = round_half_up x"
  unfolding round_half_up_def by (auto simp: floor_eq_iff) (linarith+)

lemma math_round_half_up: "math_round (Fin x) = Fin (of_int (round_half_up x))"
  by (simp add: floor_half_up)

lemma representable_of_int:
  assumes "\<bar>n\<bar> < 2 ^ 53"
  shows "representable (of_int n)"
  unfolding representable_def using assms by (intro exI [of _ n] exI [of _ 0]) simp

lemma representable_half_of_int:
  assumes "\<bar>n\<bar> < 2 ^ 53"
  shows "representable (of_int n / 2)"
  unfolding representable_def using assms
  by (intro exI [of _ n] exI [of _ "- 1"]) (simp add: power_int_minus)

lemma calculatePrice_representable:
  assumes "b \<noteq> 0" and "representable (b * c)"
  shows "calculatePrice (Fin b) (Fin c) = Fin (of_int (round_half_up (b * c)))"
  using assms by (simp add: calculatePrice_def to_double_representable floor_half_up)

lemma multiplier_doubled:
  assumes "(d, opt) \<in> set durationOptions"
  shows "\<exists>k::int. 0 < k \<and> k \<le> 16 \<and> multiplier opt = of_int k / 2"
proof -
  from assms consider "multiplier opt = of_int 1 / 2" | "multiplier opt = of_int 2 / 2"
    | "multiplier opt = of_int 5 / 2" | "multiplier opt = of_int 7 / 2"
    | "multiplier opt = of_int 16 / 2"
    by (auto simp: durationOptions_def)
  then show ?thesis
  proof cases
    case 1 then show ?thesis by (intro exI [of _ 1]) simp
  next
    case 2 then show ?thesis by (intro exI [of _ 2]) simp
  next
    case 3 then show ?thesis by (intro exI [of _ 5]) simp
  next
    case 4 then show ?thesis by (intro exI [of _ 7]) simp
  next
    case 5 then show ?thesis by (intro exI [of _ 16]) simp
  qed
qed

lemma price_times_multiplier:
  assumes "0 < n" "n < 2 ^ 49" "(d, opt) \<in> set durationOptions"
  shows "to_double (of_int n) = Fin (of_int n)"
    and "to_double (multiplier opt) = Fin (multiplier opt)"
    and "representable (of_int n * multiplier opt)"
proof -
  from multiplier_doubled [OF assms(3)] obtain k :: int
    where k: "0 < k" "k \<le> 16" "multiplier opt = of_int k / 2" by blast
  have "\<bar>n\<bar> < 2 ^ 53" using assms(1,2) by simp
  then show "to_double (of_int n) = Fin (of_int n)"
    by (intro to_double_representable representable_of_int)
  have "\<bar>k\<bar> < 2 ^ 53" using k(1,2) by simp
  then show "to_double (multiplier opt) = Fin (multiplier opt)"
    unfolding k(3) by (intro to_double_representable representable_half_of_int)
  have "n * k \<le> n * 16" using k(2) assms(1) by simp
  also have "\<dots> < 2 ^ 49 * 16" using assms(2) by simp
  finally have "n * k < 2 ^ 53" by simp
  moreover have "0 < n * k" using assms(1) k(1) by simp
  ultimately have "\<bar>n * k\<bar> < 2 ^ 53" by simp
  then have "representable (of_int (n * k) / 2)" by (rule representable_half_of_int)
  then show "representable (of_int n * multiplier opt)" by (simp add: k(3))
qed

text \<open>
  Claim C3, as the code has it. \<open>calculatePrice\<close> is 0 at base price 0 for every
  multiplier (infinities and NaN included). For a positive base price the product is the
  double-precision product, that is, the exact product rounded to the nearest double,
  and the result is that double rounded half up. It is the exact product rounded half up
  whenever the exact product is a double, as it is for every integer price below 2^49
  with each of the five multipliers of the table; \<open>calculatePrice 100 2.5 = 250\<close> and
  \<open>calculatePrice 99 0.5 = 50\<close>.
\<close>

theorem calculatePrice_rounds_double_product:
  "calculatePrice (Fin 0) m = Fin 0 \<and>
   (0 < b \<longrightarrow> calculatePrice (Fin b) (Fin c) = math_round (to_double (b * c))) \<and>
   (0 < b \<and> representable (b * c) \<longrightarrow>
      calculatePrice (Fin b) (Fin c) = Fin (of_int (round_half_up (b * c)))) \<and>
   (0 < n \<and> n < 2 ^ 49 \<and> (d, opt) \<in> set durationOptions \<longrightarrow>
      calculatePrice (to_double (of_int n)) (to_double (multiplier opt)) =
        Fin (of_int (round_half_up (of_int n * multiplier opt)))) \<and>
   calculatePrice (Fin 100) (Fin (5 / 2)) = Fin 250 \<and>
   calculatePrice (Fin 99) (Fin (1 / 2)) = Fin 50"
proof (intro conjI impI)
  show "calculatePrice (Fin 0) m = Fin 0" by (simp add: calculatePrice_def)
  show "calculatePrice (Fin b) (Fin c) = math_round (to_double (b * c))" if "0 < b"
    using that by (simp add: calculatePrice_def)
  show "calculatePrice (Fin b) (Fin c) = Fin (of_int (round_half_up (b * c)))"
    if "0 < b \<and> representable (b * c)"
    using that by (intro calculatePrice_representable) auto
  show "calculatePrice (to_double (of_int n)) (to_double (multiplier opt)) =
        Fin (of_int (round_half_up (of_int n * multiplier opt)))"
    if "0 < n \<and> n < 2 ^ 49 \<and> (d, opt) \<in> set durationOptions"
  proof -
    from that have h: "0 < n" "n < 2 ^ 49" "(d, opt) \<in> set durationOptions" by auto
    show ?thesis
      unfolding price_times_multiplier(1,2) [OF h]
      using h(1) by (intro calculatePrice_representable price_times_multiplier(3) [OF h]) simp
  qed
  show "calculatePrice (Fin 100) (Fin (5 / 2)) = Fin 250" by code_simp
  show "calculatePrice (Fin 99) (Fin (1 / 2)) = Fin 50" by code_simp
qed

theorem calculatePrice_rounds_double_product_witness:
  "(0::rat) < 199 \<and> representable (199 * (7 / 2)) \<and>
   calculatePrice (Fin 199) (Fin (7 / 2)) = Fin (of_int (round_half_up (199 * (7 / 2)))) \<and>
   round_half_up (199 * (7 / 2)) = 697 \<and>
   (0::int) < 199 \<and> (199::int) < 2 ^ 49 \<and>
   (''1mes'', \<lparr>label = ''1 m'' @ [CHR 0xC3, CHR 0xAA] @ ''s'', multiplier = 7 / 2\<rparr>)
      \<in> set durationOptions \<and>
   calculatePrice (to_double (of_int 199)) (to_double (7 / 2)) = Fin 697 \<and>
   calculatePrice (Fin 0) NaN = Fin 0"
proof -
  have r: "representable (199 * (7 / 2))"
    using representable_half_of_int [of 1393] by simp
  have m: "(''1mes'', \<lparr>label = ''1 m'' @ [CHR 0xC3, CHR 0xAA] @ ''s'', multiplier = 7 / 2\<rparr>)
      \<in> set durationOptions"
    by (simp add: durationOptions_def)
  have v: "round_half_up (199 * (7 / 2)) = 697" by code_simp
  note t = calculatePrice_rounds_double_product
    [of NaN 199 "7 / 2" 199 "''1mes''"
      "\<lparr>label = ''1 m'' @ [CHR 0xC3, CHR 0xAA] @ ''s'', multiplier = 7 / 2\<rparr>"]
  have p: "(0::rat) < 199" and q: "(0::int) < 199" "(199::int) < 2 ^ 49" by simp_all
  from t p r have a: "calculatePrice (Fin 199) (Fin (7 / 2)) =
      Fin (of_int (round_half_up (199 * (7 / 2))))" by blast
  from t q m have "calculatePrice (to_double (of_int 199))
      (to_double (multiplier \<lparr>label = ''1 m'' @ [CHR 0xC3, CHR 0xAA] @ ''s'', multiplier = 7 / 2\<rparr>)) =
      Fin (of_int (round_half_up (of_int 199 *
        multiplier \<lparr>label = ''1 m'' @ [CHR 0xC3, CHR 0xAA] @ ''s'', multiplier = 7 / 2\<rparr>)))"
    by blast
  then have b: "calculatePrice (to_double (of_int 199)) (to_double (7 / 2)) = Fin 697"
    using v by simp
  have c: "calculatePrice (Fin 0) NaN = Fin 0" using t by blast
  show ?thesis using a b c r m v p q by simp
qed

theorem exact_product_rounding_counterexample:
  "to_double 3602879701896397 = Fin 3602879701896397 \<and>
   to_double (5 / 2) = Fin (5 / 2) \<and>
   calculatePrice (Fin 3602879701896397) (Fin (5 / 2)) = Fin 9007199254740992 \<and>
   round_half_up (3602879701896397 * (5 / 2)) = 9007199254740993"
  by code_simp








lemma demo_first_load:
  "run [PlansUpdated demo_plans] =
     \<lparr>selectedPlan = Some ''rubi'', selectedDuration = ''3dias'', plans = demo_plans\<rparr>"
  by code_simp



section \<open>Payment dialog: proofs\<close>

lemma handleSubmit_invalid:
  assumes "paymentMethod s = ''credit_card''"
    and "\<not> (16 \<le> length (card_number (cardDetails s)) \<and> card_name (cardDetails s) \<noteq> [] \<and>
            5 \<le> length (card_expiry (cardDetails s)) \<and> 3 \<le> length (card_cvc (cardDetails s)))"
  shows "handleSubmit s = s\<lparr>modal_trace := modal_trace s @ [Toast InformacoesIncompletas]\<rparr>"
  using assms by (auto simp: handleSubmit_def)

lemma handleSubmit_valid:
  assumes "paymentMethod s \<noteq> ''credit_card'' \<or>
           (16 \<le> length (card_number (cardDetails s)) \<and> card_name (cardDetails s) \<noteq> [] \<and>
            5 \<le> length (card_expiry (cardDetails s)) \<and> 3 \<le> length (card_cvc (cardDetails s)))"
  shows "handleSubmit s =
           s\<lparr>isProcessing := True, timers := Suc (timers s),
             modal_trace := modal_trace s @ [SetTimeout 2000]\<rparr>"
  using assms by (auto simp: handleSubmit_def)

lemma timer_fires_pending:
  "0 < timers s \<Longrightarrow>
     modal_step s TimerFires =
       s\<lparr>isProcessing := False, dialogOpen := False, timers := timers s - 1,
         modal_trace := modal_trace s @ [Toast PagamentoAprovado, OnPaymentComplete, OnClose]\<rparr>"
  by (simp add: timeoutCallback_def onClose_def)

lemma length_ascii: "length (ascii s) = length s"
  by (simp add: ascii_def)

text \<open>
  Claim C6. When the method is "credit_card" and the card input violates one of: number
  of at least 16 code units, non-empty holder name, expiry of at least 5, cvc of at least
  3, \<open>handleSubmit\<close> only shows the "Informacoes incompletas" notice: it starts no timer,
  does not enter the processing state, calls neither the completion nor the close
  callback, and leaves every state cell as it was.
\<close>

theorem invalid_card_is_rejected:
  assumes "paymentMethod s = ''credit_card''"
    and "\<not> (16 \<le> length (card_number (cardDetails s)) \<and> card_name (cardDetails s) \<noteq> [] \<and>
            5 \<le> length (card_expiry (cardDetails s)) \<and> 3 \<le> length (card_cvc (cardDetails s)))"
  shows "handleSubmit s = s\<lparr>modal_trace := modal_trace s @ [Toast InformacoesIncompletas]\<rparr> \<and>
         isProcessing (handleSubmit s) = isProcessing s \<and>
         timers (handleSubmit s) = timers s \<and>
         dialogOpen (handleSubmit s) = dialogOpen s \<and>
         cardDetails (handleSubmit s) = cardDetails s \<and>
         paymentMethod (handleSubmit s) = paymentMethod s"
  by (simp add: handleSubmit_invalid [OF assms])

theorem invalid_card_is_rejected_witness:
  "paymentMethod (initial_modal\<lparr>cardDetails := demo_short_card\<rparr>) = ''credit_card'' \<and>
   length (card_number (cardDetails (initial_modal\<lparr>cardDetails := demo_short_card\<rparr>))) = 3 \<and>
   handleSubmit (initial_modal\<lparr>cardDetails := demo_short_card\<rparr>) =
     initial_modal\<lparr>cardDetails := demo_short_card,
                    modal_trace := [Toast InformacoesIncompletas]\<rparr> \<and>
   timers (handleSubmit (initial_modal\<lparr>cardDetails := demo_short_card\<rparr>)) = 0 \<and>
   \<not> isProcessing (handleSubmit (initial_modal\<lparr>cardDetails := demo_short_card\<rparr>))"
proof -
  let ?s = "initial_modal\<lparr>cardDetails := demo_short_card\<rparr>"
  have m: "paymentMethod ?s = ''credit_card''" by (simp add: initial_modal_def)
  have n: "length (card_number (cardDetails ?s)) = 3"
    by (simp add: demo_short_card_def length_ascii)
  then have v: "\<not> (16 \<le> length (card_number (cardDetails ?s)) \<and>
      card_name (cardDetails ?s) \<noteq> [] \<and> 5 \<le> length (card_expiry (cardDetails ?s)) \<and>
      3 \<le> length (card_cvc (cardDetails ?s)))"
    by simp
  from invalid_card_is_rejected [OF m v] m n show ?thesis
    by (simp add: initial_modal_def)
qed

text \<open>
  Claim C7. When the method is not "credit_card" (the instant transfer "pix" is never
  validated) or the card input passes the validation, \<open>handleSubmit\<close> enters the
  processing state and schedules one callback after 2000 ms. When that callback runs it
  leaves the processing state, shows "Pagamento aprovado!" and calls the completion
  callback once and then the close callback; there is no other outcome. With no other
  timer pending, nothing is left to call the completion callback a second time.
\<close>

theorem valid_payment_succeeds_once:
  assumes "paymentMethod s \<noteq> ''credit_card'' \<or>
           (16 \<le> length (card_number (cardDetails s)) \<and> card_name (cardDetails s) \<noteq> [] \<and>
            5 \<le> length (card_expiry (cardDetails s)) \<and> 3 \<le> length (card_cvc (cardDetails s)))"
  shows "handleSubmit s =
           s\<lparr>isProcessing := True, timers := Suc (timers s),
             modal_trace := modal_trace s @ [SetTimeout 2000]\<rparr> \<and>
         modal_step (handleSubmit s) TimerFires =
           s\<lparr>isProcessing := False, dialogOpen := False,
             modal_trace := modal_trace s @
               [SetTimeout 2000, Toast PagamentoAprovado, OnPaymentComplete, OnClose]\<rparr> \<and>
         count_list (modal_trace (modal_step (handleSubmit s) TimerFires)) OnPaymentComplete =
           Suc (count_list (modal_trace s) OnPaymentComplete) \<and>
         (timers s = 0 \<longrightarrow>
            modal_step (modal_step (handleSubmit s) TimerFires) TimerFires =
              modal_step (handleSubmit s) TimerFires)"
proof -
  have a: "handleSubmit s =
           s\<lparr>isProcessing := True, timers := Suc (timers s),
             modal_trace := modal_trace s @ [SetTimeout 2000]\<rparr>"
    using assms by (rule handleSubmit_valid)
  have b: "modal_step (handleSubmit s) TimerFires =
           s\<lparr>isProcessing := False, dialogOpen := False,
             modal_trace := modal_trace s @
               [SetTimeout 2000, Toast PagamentoAprovado, OnPaymentComplete, OnClose]\<rparr>"
    unfolding a by (simp add: timeoutCallback_def onClose_def)
  show ?thesis unfolding b using a by simp
qed

theorem valid_payment_succeeds_once_witness:
  "paymentMethod (initial_modal\<lparr>cardDetails := demo_card\<rparr>) = ''credit_card'' \<and>
   length (card_number (cardDetails (initial_modal\<lparr>cardDetails := demo_card\<rparr>))) = 16 \<and>
   isProcessing (handleSubmit (initial_modal\<lparr>cardDetails := demo_card\<rparr>)) \<and>
   modal_trace (modal_step (handleSubmit (initial_modal\<lparr>cardDetails := demo_card\<rparr>)) TimerFires) =
     [SetTimeout 2000, Toast PagamentoAprovado, OnPaymentComplete, OnClose] \<and>
   \<not> isProcessing (modal_step (handleSubmit (initial_modal\<lparr>cardDetails := demo_card\<rparr>)) TimerFires) \<and>
   isProcessing (handleSubmit (initial_modal\<lparr>paymentMethod := ''pix''\<rparr>)) \<and>
   modal_trace (modal_step (handleSubmit (initial_modal\<lparr>paymentMethod := ''pix''\<rparr>)) TimerFires) =
     [SetTimeout 2000, Toast PagamentoAprovado, OnPaymentComplete, OnClose]"
proof -
  let ?s = "initial_modal\<lparr>cardDetails := demo_card\<rparr>"
  let ?t = "initial_modal\<lparr>paymentMethod := ''pix''\<rparr>"
  have m: "paymentMethod ?s = ''credit_card''" by (simp add: initial_modal_def)
  have n: "length (card_number (cardDetails ?s)) = 16"
    by (simp add: demo_card_def length_ascii)
  have v: "paymentMethod ?s \<noteq> ''credit_card'' \<or>
      (16 \<le> length (card_number (cardDetails ?s)) \<and>
      card_name (cardDetails ?s) \<noteq> [] \<and> 5 \<le> length (card_expiry (cardDetails ?s)) \<and>
      3 \<le> length (card_cvc (cardDetails ?s)))"
    by (simp add: demo_card_def length_ascii ascii_def)
  have p: "paymentMethod ?t \<noteq> ''credit_card'' \<or>
      (16 \<le> length (card_number (cardDetails ?t)) \<and>
      card_name (cardDetails ?t) \<noteq> [] \<and> 5 \<le> length (card_expiry (cardDetails ?t)) \<and>
      3 \<le> length (card_cvc (cardDetails ?t)))"
    by simp
  note a = valid_payment_succeeds_once [OF v, THEN conjunct1]
    and b = valid_payment_succeeds_once [OF v, THEN conjunct2, THEN conjunct1]
    and c = valid_payment_succeeds_once [OF p, THEN conjunct1]
    and d = valid_payment_succeeds_once [OF p, THEN conjunct2, THEN conjunct1]
  have e1: "isProcessing (handleSubmit ?s)" and e2: "isProcessing (handleSubmit ?t)"
    unfolding a c by simp_all
  have e3: "modal_trace (modal_step (handleSubmit ?s) TimerFires) =
      [SetTimeout 2000, Toast PagamentoAprovado, OnPaymentComplete, OnClose]"
    and e4: "\<not> isProcessing (modal_step (handleSubmit ?s) TimerFires)"
    unfolding b by (simp_all add: initial_modal_def)
  have e5: "modal_trace (modal_step (handleSubmit ?t) TimerFires) =
      [SetTimeout 2000, Toast PagamentoAprovado, OnPaymentComplete, OnClose]"
    unfolding d by (simp add: initial_modal_def)
  show ?thesis using m n e1 e2 e3 e4 e5 by blast
qed

text \<open>
  Claim C2, as the code has it. Closing the dialog does not cancel a pending settlement:
  from every state with the dialog open and a timeout pending, closing the dialog and
  then letting the timeout elapse clears the processing flag, shows "Pagamento
  aprovado!", and calls the completion callback and the close callback once each, exactly
  as it would with the dialog still open.
\<close>

theorem closing_does_not_cancel_settlement:
  assumes "dialogOpen s" and "0 < timers s"
  shows "modal_step (modal_step s CloseDialog) TimerFires =
           s\<lparr>isProcessing := False, dialogOpen := False, timers := timers s - 1,
             modal_trace := modal_trace s @
               [OnClose, Toast PagamentoAprovado, OnPaymentComplete, OnClose]\<rparr> \<and>
         modal_trace (modal_step (modal_step s CloseDialog) TimerFires) =
           modal_trace (modal_step s CloseDialog) @
             [Toast PagamentoAprovado, OnPaymentComplete, OnClose]"
  using assms by (simp add: timeoutCallback_def onClose_def)

theorem closing_does_not_cancel_settlement_witness:
  "dialogOpen (modal_run [SelectMethod ''pix'', ClickSubmit]) \<and>
   timers (modal_run [SelectMethod ''pix'', ClickSubmit]) = 1 \<and>
   modal_trace (modal_step (modal_step (modal_run [SelectMethod ''pix'', ClickSubmit])
                               CloseDialog) TimerFires) =
     [SetTimeout 2000, OnClose, Toast PagamentoAprovado, OnPaymentComplete, OnClose]"
proof -
  let ?s = "modal_run [SelectMethod ''pix'', ClickSubmit]"
  have s: "?s = initial_modal\<lparr>paymentMethod := ''pix'', isProcessing := True, timers := 1,
                  modal_trace := [SetTimeout 2000]\<rparr>"
    by (simp add: modal_run_def initial_modal_def handleSubmit_def)
  have o: "dialogOpen ?s" and t: "0 < timers ?s" unfolding s by (simp_all add: initial_modal_def)
  from closing_does_not_cancel_settlement [OF o t] show ?thesis
    unfolding s by (simp add: initial_modal_def)
qed

theorem closed_dialog_settlement_counterexample:
  "\<not> dialogOpen (modal_run [SelectMethod ''pix'', ClickSubmit, CloseDialog]) \<and>
   modal_step (modal_run [SelectMethod ''pix'', ClickSubmit, CloseDialog]) TimerFires \<noteq>
     modal_run [SelectMethod ''pix'', ClickSubmit, CloseDialog] \<and>
   modal_trace (modal_run [SelectMethod ''pix'', ClickSubmit, CloseDialog]) =
     [SetTimeout 2000, OnClose] \<and>
   modal_trace (modal_step (modal_run [SelectMethod ''pix'', ClickSubmit, CloseDialog]) TimerFires) =
     [SetTimeout 2000, OnClose, Toast PagamentoAprovado, OnPaymentComplete, OnClose]"
proof -
  have s: "modal_run [SelectMethod ''pix'', ClickSubmit, CloseDialog] =
      initial_modal\<lparr>paymentMethod := ''pix'', isProcessing := True, dialogOpen := False,
         timers := 1, modal_trace := [SetTimeout 2000, OnClose]\<rparr>"
    by (simp add: modal_run_def initial_modal_def handleSubmit_def onClose_def)
  show ?thesis unfolding s
    by (simp add: initial_modal_def timeoutCallback_def onClose_def)
qed

section \<open>Document verification: proofs\<close>

lemma uploadAndRecord_bound:
  assumes "fileOf ''front'' imgs = Some ff" "fileOf ''back'' imgs = Some bf"
    "fileOf ''selfie'' imgs = Some sf"
  shows "uploadAndRecord be clk u imgs w =
     (case storage_upload be (storageKey u ''front'' (now_front clk)) ff w of
        (Rejected, w1) \<Rightarrow> (Inl PromiseRejected, w1)
      | (Resolved frontUpload, w1) \<Rightarrow>
     (case storage_upload be (storageKey u ''back'' (now_back clk)) bf w1 of
        (Rejected, w2) \<Rightarrow> (Inl PromiseRejected, w2)
      | (Resolved backUpload, w2) \<Rightarrow>
     (case storage_upload be (storageKey u ''selfie'' (now_selfie clk)) sf w2 of
        (Rejected, w3) \<Rightarrow> (Inl PromiseRejected, w3)
      | (Resolved selfieUpload, w3) \<Rightarrow>
          if error frontUpload \<noteq> None \<or> error backUpload \<noteq> None \<or>
             error selfieUpload \<noteq> None
          then (Inl ErrorUploadingFiles, w3)
          else
            let row = \<lparr>user_id = account_id u,
                       document_front_url = public_url be (storageKey u ''front'' (now_front clk)),
                       document_back_url = public_url be (storageKey u ''back'' (now_back clk)),
                       document_selfie_url = public_url be (storageKey u ''selfie'' (now_selfie clk)),
                       status = ''pending''\<rparr>;
                w6 = w3\<lparr>world_trace := world_trace w3 @
                       [GetPublicUrl ''verifications'' (storageKey u ''front'' (now_front clk)),
                        GetPublicUrl ''verifications'' (storageKey u ''back'' (now_back clk)),
                        GetPublicUrl ''verifications'' (storageKey u ''selfie'' (now_selfie clk))]\<rparr>
            in (case records_insert be row w6 of
                  (Rejected, w7) \<Rightarrow> (Inl PromiseRejected, w7)
                | (Resolved r, w7) \<Rightarrow>
                    (case error r of
                       Some e \<Rightarrow> (Inl (InsertFailed e), w7)
                     | None \<Rightarrow>
                         (Inr (),
                          w7\<lparr>world_trace := world_trace w7 @
                               [Toast DocumentosEnviados, Navigate ''/dashboard'']\<rparr>))))))"
  using assms
  by (simp add: uploadAndRecord_def Let_def getPublicUrl_def split: prod.splits awaited.splits)

lemma handleContinue_bound:
  assumes "list_all (\<lambda>img. img_file img \<noteq> None) imgs"
  shows "DocumentVerification_handleContinue be clk (Some u) imgs w =
     (case uploadAndRecord be clk u imgs (w\<lparr>isUploading := True\<rparr>) of
        (Inl e, w1) \<Rightarrow>
          w1\<lparr>world_trace := world_trace w1 @ [ConsoleError, Toast ErroAoEnviarDocumentos],
             isUploading := False\<rparr>
      | (Inr x, w1) \<Rightarrow> w1\<lparr>isUploading := False\<rparr>)"
  using assms
  by (simp add: DocumentVerification_handleContinue_def split: prod.splits sum.splits)

lemma succeeded_cases:
  obtains (ok) "a = Resolved \<lparr>error = None\<rparr>" "succeeded a"
        | (err) e where "a = Resolved \<lparr>error = Some e\<rparr>" "\<not> succeeded a"
        | (rej) "a = Rejected" "\<not> succeeded a"
proof (cases a)
  case (Resolved r)
  then show ?thesis
    by (cases r; cases "error r") (auto simp: succeeded_def intro: ok err)
next
  case Rejected
  then show ?thesis by (auto simp: succeeded_def intro: rej)
qed

lemma succeeded_iff: "succeeded a \<longleftrightarrow> a = Resolved \<lparr>error = None\<rparr>"
proof (cases a)
  case (Resolved r)
  then show ?thesis by (cases r) (simp add: succeeded_def)
next
  case Rejected
  then show ?thesis by (simp add: succeeded_def)
qed

lemma incomplete_not_all:
  assumes "length (filter P xs) < length xs"
  shows "\<not> list_all P xs"
proof
  assume "list_all P xs"
  then have "filter P xs = xs" by (simp add: list_all_iff)
  with assms show False by simp
qed

text \<open>
  Claim C8. With the caller signed in and exactly two of the three document slots bound,
  \<open>handleContinue\<close> only shows the "Documentos incompletos" notice: its trace gains no
  upload, no address lookup and no insert, and the bucket, the table and \<open>isUploading\<close> are
  as before.
\<close>

theorem incomplete_submission_no_storage_calls:
  assumes "length imgs = 3" and "length (filter (\<lambda>img. img_file img \<noteq> None) imgs) = 2"
  shows "DocumentVerification_handleContinue be clk (Some u) imgs w =
           w\<lparr>world_trace := world_trace w @ [Toast DocumentosIncompletos]\<rparr>"
proof -
  have "\<not> list_all (\<lambda>img. img_file img \<noteq> None) imgs"
    using assms by (intro incomplete_not_all) simp
  then show ?thesis by (simp add: DocumentVerification_handleContinue_def)
qed

theorem incomplete_submission_no_storage_calls_witness:
  "length demo_images_no_selfie = 3 \<and>
   length (filter (\<lambda>img. img_file img \<noteq> None) demo_images_no_selfie) = 2 \<and>
   DocumentVerification_handleContinue demo_backend demo_clock (Some demo_account)
       demo_images_no_selfie demo_world =
     \<lparr>bucket = [], table_rows = [], isUploading = False,
      world_trace = [Toast DocumentosIncompletos]\<rparr>"
proof -
  have a: "length demo_images_no_selfie = 3"
    and b: "length (filter (\<lambda>img. img_file img \<noteq> None) demo_images_no_selfie) = 2"
    by (simp_all add: demo_images_no_selfie_def)
  from incomplete_submission_no_storage_calls [OF a b, of demo_backend demo_clock demo_account demo_world]
  show ?thesis using a b by (simp add: demo_world_def)
qed

text \<open>
  Claim C5. With the caller signed in, all slots bound (the slots "front", "back" and
  "selfie" among them) and all three uploads succeeding, \<open>handleContinue\<close> uploads the
  three files in order, looks up their three public addresses and issues exactly one
  insert, of the row with the caller's id, the three addresses and status "pending".
  The table gains exactly that row when the records store accepts the insert and
  nothing when it does not; it never gains a second row or a row with an address
  missing.
\<close>

theorem complete_submission_inserts_one_row:
  fixes be :: backend and clk :: clock and u :: account
  defines "k1 \<equiv> storageKey u ''front'' (now_front clk)"
    and "k2 \<equiv> storageKey u ''back'' (now_back clk)"
    and "k3 \<equiv> storageKey u ''selfie'' (now_selfie clk)"
  defines "row \<equiv> \<lparr>user_id = account_id u, document_front_url = public_url be k1,
                    document_back_url = public_url be k2,
                    document_selfie_url = public_url be k3, status = ''pending''\<rparr>"
  assumes bound: "list_all (\<lambda>img. img_file img \<noteq> None) imgs"
    and files: "fileOf ''front'' imgs = Some ff" "fileOf ''back'' imgs = Some bf"
      "fileOf ''selfie'' imgs = Some sf"
    and uploads: "succeeded (upload_reply be k1 ff)" "succeeded (upload_reply be k2 bf)"
      "succeeded (upload_reply be k3 sf)"
  shows "world_trace (DocumentVerification_handleContinue be clk (Some u) imgs w) =
           world_trace w @
             [StorageUpload ''verifications'' k1 ff, StorageUpload ''verifications'' k2 bf,
              StorageUpload ''verifications'' k3 sf,
              GetPublicUrl ''verifications'' k1, GetPublicUrl ''verifications'' k2,
              GetPublicUrl ''verifications'' k3,
              RecordInsert ''verification_documents'' row] @
             (if succeeded (insert_reply be row)
              then [Toast DocumentosEnviados, Navigate ''/dashboard'']
              else [ConsoleError, Toast ErroAoEnviarDocumentos]) \<and>
         table_rows (DocumentVerification_handleContinue be clk (Some u) imgs w) =
           table_rows w @ (if succeeded (insert_reply be row) then [row] else []) \<and>
         bucket (DocumentVerification_handleContinue be clk (Some u) imgs w) =
           bucket w @ [(k1, ff), (k2, bf), (k3, sf)] \<and>
         \<not> isUploading (DocumentVerification_handleContinue be clk (Some u) imgs w)"
proof -
  from uploads have r: "upload_reply be k1 ff = Resolved \<lparr>error = None\<rparr>"
    "upload_reply be k2 bf = Resolved \<lparr>error = None\<rparr>"
    "upload_reply be k3 sf = Resolved \<lparr>error = None\<rparr>"
    by (simp_all add: succeeded_iff)
  show ?thesis
  proof (cases "insert_reply be row" rule: succeeded_cases)
    case ok
    then show ?thesis
      using r unfolding handleContinue_bound [OF bound] uploadAndRecord_bound [OF files]
      by (simp add: storage_upload_def records_insert_def Let_def succeeded_def
          k1_def k2_def k3_def row_def)
  next
    case (err e)
    then show ?thesis
      using r unfolding handleContinue_bound [OF bound] uploadAndRecord_bound [OF files]
      by (simp add: storage_upload_def records_insert_def Let_def succeeded_def
          k1_def k2_def k3_def row_def)
  next
    case rej
    then show ?thesis
      using r unfolding handleContinue_bound [OF bound] uploadAndRecord_bound [OF files]
      by (simp add: storage_upload_def records_insert_def Let_def succeeded_def
          k1_def k2_def k3_def row_def)
  qed
qed

lemma demo_keys:
  "storageKey demo_account ''front'' (now_front demo_clock) = ''verification/u1/front_1700''"
  "storageKey demo_account ''back'' (now_back demo_clock) = ''verification/u1/back_1700''"
  "storageKey demo_account ''selfie'' (now_selfie demo_clock) = ''verification/u1/selfie_1701''"
  by code_simp+

lemma demo_files:
  "list_all (\<lambda>img. img_file img \<noteq> None) demo_images"
  "fileOf ''front'' demo_images = Some (File ''front.jpg'')"
  "fileOf ''back'' demo_images = Some (File ''back.jpg'')"
  "fileOf ''selfie'' demo_images = Some (File ''selfie.jpg'')"
  by (simp_all add: demo_images_def fileOf_def)

theorem complete_submission_inserts_one_row_witness:
  "list_all (\<lambda>img. img_file img \<noteq> None) demo_images \<and>
   fileOf ''front'' demo_images = Some (File ''front.jpg'') \<and>
   fileOf ''back'' demo_images = Some (File ''back.jpg'') \<and>
   fileOf ''selfie'' demo_images = Some (File ''selfie.jpg'') \<and>
   succeeded (upload_reply demo_backend ''verification/u1/front_1700'' (File ''front.jpg'')) \<and>
   succeeded (upload_reply demo_backend ''verification/u1/back_1700'' (File ''back.jpg'')) \<and>
   succeeded (upload_reply demo_backend ''verification/u1/selfie_1701'' (File ''selfie.jpg'')) \<and>
   table_rows (DocumentVerification_handleContinue demo_backend demo_clock (Some demo_account)
                 demo_images demo_world) =
     [\<lparr>user_id = ''u1'',
       document_front_url = ''https://cdn/verification/u1/front_1700'',
       document_back_url = ''https://cdn/verification/u1/back_1700'',
       document_selfie_url = ''https://cdn/verification/u1/selfie_1701'',
       status = ''pending''\<rparr>] \<and>
   bucket (DocumentVerification_handleContinue demo_backend demo_clock (Some demo_account)
                 demo_images demo_world) =
     [(''verification/u1/front_1700'', File ''front.jpg''),
      (''verification/u1/back_1700'', File ''back.jpg''),
      (''verification/u1/selfie_1701'', File ''selfie.jpg'')]"
proof -
  have s: "succeeded (upload_reply demo_backend p f)" for p f
    by (simp add: demo_backend_def succeeded_def)
  note t = complete_submission_inserts_one_row
    [where be = demo_backend and clk = demo_clock and u = demo_account and w = demo_world,
      OF demo_files s s s]
  have "table_rows (DocumentVerification_handleContinue demo_backend demo_clock
          (Some demo_account) demo_images demo_world) =
     [\<lparr>user_id = ''u1'',
       document_front_url = ''https://cdn/verification/u1/front_1700'',
       document_back_url = ''https://cdn/verification/u1/back_1700'',
       document_selfie_url = ''https://cdn/verification/u1/selfie_1701'',
       status = ''pending''\<rparr>]"
    unfolding t [THEN conjunct2, THEN conjunct1] demo_keys
    by (simp add: demo_backend_def demo_world_def demo_account_def succeeded_def)
  moreover have "bucket (DocumentVerification_handleContinue demo_backend demo_clock
          (Some demo_account) demo_images demo_world) =
     [(''verification/u1/front_1700'', File ''front.jpg''),
      (''verification/u1/back_1700'', File ''back.jpg''),
      (''verification/u1/selfie_1701'', File ''selfie.jpg'')]"
    unfolding t [THEN conjunct2, THEN conjunct2, THEN conjunct1] demo_keys
    by (simp add: demo_world_def)
  ultimately show ?thesis using demo_files s by simp
qed

lemma demo_back_fails_replies:
  "upload_reply demo_backend_back_fails p (File ''front.jpg'') = Resolved \<lparr>error = None\<rparr>"
  "upload_reply demo_backend_back_fails p (File ''back.jpg'') = Resolved \<lparr>error = Some ''denied''\<rparr>"
  "upload_reply demo_backend_back_fails p (File ''selfie.jpg'') = Resolved \<lparr>error = None\<rparr>"
  by (simp_all add: demo_backend_back_fails_def demo_backend_def)

text \<open>
  Claim C1, as the code has it. With the caller signed in, all slots bound and at least
  one of the three uploads failing, \<open>handleContinue\<close> ends with the error report and the
  "Erro ao enviar documentos" notice, issues no insert and leaves the table as it was.
  It does not stop at an upload whose response carries an error: the three responses are
  inspected only after the third upload, so all three uploads are issued, the block
  throws "Error uploading files", and every upload that succeeded leaves its object in
  the bucket. Only an upload whose promise rejects skips the later uploads. When the
  first upload succeeds and the second reports an error, the third is still issued, and
  the bucket gains the first object, and the third one as well if that upload succeeds.
\<close>

theorem failed_upload_inserts_no_row:
  fixes be :: backend and clk :: clock and u :: account and ff bf sf :: blob
  defines "k1 \<equiv> storageKey u ''front'' (now_front clk)"
    and "k2 \<equiv> storageKey u ''back'' (now_back clk)"
    and "k3 \<equiv> storageKey u ''selfie'' (now_selfie clk)"
  defines "r1 \<equiv> upload_reply be k1 ff"
    and "r2 \<equiv> upload_reply be k2 bf"
    and "r3 \<equiv> upload_reply be k3 sf"
  defines "n \<equiv> (if r1 = Rejected then 1 else if r2 = Rejected then 2 else (3::nat))"
  assumes bound: "list_all (\<lambda>img. img_file img \<noteq> None) imgs"
    and files: "fileOf ''front'' imgs = Some ff" "fileOf ''back'' imgs = Some bf"
      "fileOf ''selfie'' imgs = Some sf"
    and fails: "\<not> (succeeded r1 \<and> succeeded r2 \<and> succeeded r3)"
  shows "world_trace (DocumentVerification_handleContinue be clk (Some u) imgs w) =
           world_trace w @
             take n [StorageUpload ''verifications'' k1 ff, StorageUpload ''verifications'' k2 bf,
                     StorageUpload ''verifications'' k3 sf] @
             [ConsoleError, Toast ErroAoEnviarDocumentos] \<and>
         bucket (DocumentVerification_handleContinue be clk (Some u) imgs w) =
           bucket w @
             map snd (filter (\<lambda>(r, obj). succeeded r)
                        (take n [(r1, (k1, ff)), (r2, (k2, bf)), (r3, (k3, sf))])) \<and>
         table_rows (DocumentVerification_handleContinue be clk (Some u) imgs w) = table_rows w \<and>
         \<not> isUploading (DocumentVerification_handleContinue be clk (Some u) imgs w) \<and>
         (r1 \<noteq> Rejected \<and> r2 \<noteq> Rejected \<and> r3 \<noteq> Rejected \<longrightarrow>
            n = 3 \<and>
            fst (uploadAndRecord be clk u imgs (w\<lparr>isUploading := True\<rparr>)) =
              Inl ErrorUploadingFiles) \<and>
         (succeeded r1 \<and> \<not> succeeded r2 \<and> r2 \<noteq> Rejected \<longrightarrow>
            n = 3 \<and>
            bucket (DocumentVerification_handleContinue be clk (Some u) imgs w) =
              bucket w @ [(k1, ff)] @ (if succeeded r3 then [(k3, sf)] else []))"
proof -
  note defs = handleContinue_bound [OF bound] uploadAndRecord_bound [OF files]
  note eval = storage_upload_def Let_def succeeded_def n_def
  consider (a) "r1 = Rejected"
    | (b) e1 where "r1 = Resolved e1" "r2 = Rejected"
    | (c) e1 e2 where "r1 = Resolved e1" "r2 = Resolved e2" "r3 = Rejected"
    | (d) e1 e2 e3 where "r1 = Resolved e1" "r2 = Resolved e2" "r3 = Resolved e3"
    by (cases r1; cases r2; cases r3) auto
  then show ?thesis
  proof cases
    case a
    then show ?thesis unfolding defs using a [unfolded r1_def k1_def]
      by (simp add: eval r1_def k1_def)
  next
    case b
    then show ?thesis unfolding defs
      using b [unfolded r1_def r2_def k1_def k2_def]
      by (simp add: eval r1_def r2_def k1_def k2_def)
  next
    case c
    then show ?thesis unfolding defs
      using c [unfolded r1_def r2_def r3_def k1_def k2_def k3_def]
      by (simp add: eval r1_def r2_def r3_def k1_def k2_def k3_def)
  next
    case d
    then show ?thesis unfolding defs
      using d [unfolded r1_def r2_def r3_def k1_def k2_def k3_def]
        fails [unfolded r1_def r2_def r3_def k1_def k2_def k3_def]
      by (auto simp add: eval r1_def r2_def r3_def k1_def k2_def k3_def)
  qed
qed

theorem failed_upload_inserts_no_row_witness:
  "list_all (\<lambda>img. img_file img \<noteq> None) demo_images \<and>
   fileOf ''front'' demo_images = Some (File ''front.jpg'') \<and>
   fileOf ''back'' demo_images = Some (File ''back.jpg'') \<and>
   fileOf ''selfie'' demo_images = Some (File ''selfie.jpg'') \<and>
   succeeded (upload_reply demo_backend_back_fails ''verification/u1/front_1700'' (File ''front.jpg'')) \<and>
   \<not> succeeded (upload_reply demo_backend_back_fails ''verification/u1/back_1700'' (File ''back.jpg'')) \<and>
   table_rows (DocumentVerification_handleContinue demo_backend_back_fails demo_clock
                 (Some demo_account) demo_images demo_world) = [] \<and>
   world_trace (DocumentVerification_handleContinue demo_backend_back_fails demo_clock
                 (Some demo_account) demo_images demo_world) =
     [StorageUpload ''verifications'' ''verification/u1/front_1700'' (File ''front.jpg''),
      StorageUpload ''verifications'' ''verification/u1/back_1700'' (File ''back.jpg''),
      StorageUpload ''verifications'' ''verification/u1/selfie_1701'' (File ''selfie.jpg''),
      ConsoleError, Toast ErroAoEnviarDocumentos]"
proof -
  have f: "\<not> (succeeded (upload_reply demo_backend_back_fails p1 (File ''front.jpg'')) \<and>
              succeeded (upload_reply demo_backend_back_fails p2 (File ''back.jpg'')) \<and>
              succeeded (upload_reply demo_backend_back_fails p3 (File ''selfie.jpg'')))"
    for p1 p2 p3
    by (simp add: demo_back_fails_replies succeeded_def)
  note t = failed_upload_inserts_no_row
    [where be = demo_backend_back_fails and clk = demo_clock and u = demo_account
       and w = demo_world, OF demo_files f]
  have "table_rows (DocumentVerification_handleContinue demo_backend_back_fails demo_clock
                 (Some demo_account) demo_images demo_world) = []"
    unfolding t [THEN conjunct2, THEN conjunct2, THEN conjunct1]
    by (simp add: demo_world_def)
  moreover have "world_trace (DocumentVerification_handleContinue demo_backend_back_fails
                 demo_clock (Some demo_account) demo_images demo_world) =
     [StorageUpload ''verifications'' ''verification/u1/front_1700'' (File ''front.jpg''),
      StorageUpload ''verifications'' ''verification/u1/back_1700'' (File ''back.jpg''),
      StorageUpload ''verifications'' ''verification/u1/selfie_1701'' (File ''selfie.jpg''),
      ConsoleError, Toast ErroAoEnviarDocumentos]"
    unfolding t [THEN conjunct1] demo_keys
    by (simp add: demo_back_fails_replies demo_world_def)
  ultimately show ?thesis
    using demo_files by (simp add: demo_back_fails_replies succeeded_def)
qed

theorem abort_after_failed_upload_counterexample:
  "fileOf ''front'' demo_images = Some (File ''front.jpg'') \<and>
   fileOf ''back'' demo_images = Some (File ''back.jpg'') \<and>
   fileOf ''selfie'' demo_images = Some (File ''selfie.jpg'') \<and>
   succeeded (upload_reply demo_backend_back_fails ''verification/u1/front_1700'' (File ''front.jpg'')) \<and>
   \<not> succeeded (upload_reply demo_backend_back_fails ''verification/u1/back_1700'' (File ''back.jpg'')) \<and>
   world_trace (DocumentVerification_handleContinue demo_backend_back_fails demo_clock
                 (Some demo_account) demo_images demo_world) =
     [StorageUpload ''verifications'' ''verification/u1/front_1700'' (File ''front.jpg''),
      StorageUpload ''verifications'' ''verification/u1/back_1700'' (File ''back.jpg''),
      StorageUpload ''verifications'' ''verification/u1/selfie_1701'' (File ''selfie.jpg''),
      ConsoleError, Toast ErroAoEnviarDocumentos] \<and>
   bucket (DocumentVerification_handleContinue demo_backend_back_fails demo_clock
                 (Some demo_account) demo_images demo_world) =
     [(''verification/u1/front_1700'', File ''front.jpg''),
      (''verification/u1/selfie_1701'', File ''selfie.jpg'')] \<and>
   length (bucket (DocumentVerification_handleContinue demo_backend_back_fails demo_clock
                 (Some demo_account) demo_images demo_world)) \<noteq> 1"
proof -
  have "DocumentVerification_handleContinue demo_backend_back_fails demo_clock
          (Some demo_account) demo_images demo_world =
        \<lparr>bucket = [(''verification/u1/front_1700'', File ''front.jpg''),
                   (''verification/u1/selfie_1701'', File ''selfie.jpg'')],
         table_rows = [], isUploading = False,
         world_trace =
           [StorageUpload ''verifications'' ''verification/u1/front_1700'' (File ''front.jpg''),
            StorageUpload ''verifications'' ''verification/u1/back_1700'' (File ''back.jpg''),
            StorageUpload ''verifications'' ''verification/u1/selfie_1701'' (File ''selfie.jpg''),
            ConsoleError, Toast ErroAoEnviarDocumentos]\<rparr>"
    unfolding handleContinue_bound [OF demo_files(1)] uploadAndRecord_bound [OF demo_files(2-4)]
      demo_keys
    by (simp add: storage_upload_def Let_def succeeded_def demo_back_fails_replies demo_world_def)
  then show ?thesis
    using demo_files by (simp add: demo_back_fails_replies succeeded_def)
qed

end
